theory Spec2Isabelle
  imports Main "HOL-Library.Word" "HOL-Library.Signed_Division"
begin

unbundle bit_operations_syntax

section \<open>Record counts, the sanity validator and the iteration planner\<close>

text \<open>
  The load generator of \<^verbatim>\<open>load/load.go\<close>. Go's \<^verbatim>\<open>int\<close> is modelled as a 64-bit
  word (the size it has on every platform CockroachDB runs on): \<open>+\<close> and \<open>*\<close> wrap,
  comparisons are the signed ones and \<^verbatim>\<open>>>\<close> is the arithmetic shift.

  \<^verbatim>\<open>type RecordType uint\<close> with its \<^verbatim>\<open>iota\<close> constants, and
  \<^verbatim>\<open>type recordCount [LastRecordType]int\<close>: an array of five counts, indexed by
  record type. The array is a list that always has \<open>LastRecordType\<close> entries.
\<close>

type_synonym go_int = "64 word"

type_synonym RecordType = nat

definition Users :: RecordType where "Users = 0"
definition Groups :: RecordType where "Groups = 1"
definition Members :: RecordType where "Members = 2"
definition UserPermissions :: RecordType where "UserPermissions = 3"
definition GroupPermissions :: RecordType where "GroupPermissions = 4"
definition LastRecordType :: nat where "LastRecordType = 5"

type_synonym recordCount = "go_int list"

text \<open>\<^verbatim>\<open>func (counts recordCount) sane() bool\<close>: five guarded early returns.\<close>

definition sane :: "recordCount \<Rightarrow> bool" where
  "sane counts =
     (if 0 <s counts ! Members \<and> counts ! Groups = 0 then False
      else if 0 <s counts ! Members \<and> counts ! Users = 0 then False
      else if counts ! Users <s counts ! Members then False
      else if 0 <s counts ! UserPermissions \<and> counts ! Users = 0 then False
      else if 0 <s counts ! GroupPermissions \<and> counts ! Groups = 0 then False
      else True)"

text \<open>
  \<^verbatim>\<open>func recordCountForIteration(iteration int) (counts recordCount)\<close>. The named
  result starts as the zero array; the first loop ranges over its indices, the second over
  the record types, testing \<^verbatim>\<open>iteration&(1<<rt) != 0\<close>.
\<close>

definition recordCountForIteration :: "go_int \<Rightarrow> recordCount" where
  "recordCountForIteration iteration =
     (let counts = replicate LastRecordType 0;
          baseline = signed_drop_bit LastRecordType iteration
      in if baseline = iteration then counts
         else
           let counts = fold (\<lambda>cidx c. c[cidx := baseline * 20]) [0..<length counts] counts;
               counts = fold (\<lambda>rt c. if iteration AND push_bit rt 1 \<noteq> 0
                                       then c[rt := c ! rt + 20] else c)
                             [0..<LastRecordType] counts
           in counts)"


section \<open>Strings\<close>

text \<open>
  \<^verbatim>\<open>strconv.Itoa\<close>: the decimal numeral of an integer, with a leading minus sign for a
  negative one.
\<close>

definition digit_char :: "nat \<Rightarrow> char" where
  "digit_char d = ''0123456789'' ! d"

function digits :: "nat \<Rightarrow> string" where
  "digits n = (if n < 10 then [digit_char n] else digits (n div 10) @ [digit_char (n mod 10)])"
  by pat_completeness auto
termination
  by (relation "measure (\<lambda>n. n)") auto

definition Itoa :: "go_int \<Rightarrow> string" where
  "Itoa i = (if sint i < 0 then CHR ''-'' # digits (nat (- sint i)) else digits (nat (sint i)))"

definition userResourceName :: "go_int \<Rightarrow> string" where
  "userResourceName rid = ''user-resource-'' @ Itoa rid"

definition groupResourceName :: "go_int \<Rightarrow> string" where
  "groupResourceName rid = ''group-resource-'' @ Itoa rid"

text \<open>
  SQL's \<^verbatim>\<open>LIKE\<close>, which every lookup by business key uses: in the pattern,
  \<^verbatim>\<open>%\<close> stands for any run of characters and \<^verbatim>\<open>_\<close> for any single one; every other
  character stands for itself (an escape character is not modelled: no key that the
  program makes holds one). \<open>like s p\<close> reads "\<open>s\<close> LIKE \<open>p\<close>".
\<close>

fun like :: "string \<Rightarrow> string \<Rightarrow> bool" where
  "like [] [] = True"
| "like (c # cs) [] = False"
| "like s (p # ps) =
     (if p = CHR ''%'' then
        like s ps \<or> (case s of [] \<Rightarrow> False | c # cs \<Rightarrow> like cs (p # ps))
      else
        (case s of [] \<Rightarrow> False | c # cs \<Rightarrow> (p = CHR ''_'' \<or> c = p) \<and> like cs ps))"

text \<open>A comparison with \<^verbatim>\<open>NULL\<close> selects no row.\<close>

definition like_null :: "string option \<Rightarrow> string \<Rightarrow> bool" where
  "like_null v p = (case v of None \<Rightarrow> False | Some s \<Rightarrow> like s p)"

text \<open>
  The comma-joined action string read back as its tokens (as \<^verbatim>\<open>strings.Split(s, ",")\<close>
  would), to speak about the action set of a row.
\<close>

fun split_commas :: "string \<Rightarrow> string list" where
  "split_commas [] = [[]]"
| "split_commas (c # cs) =
     (if c = CHR '','' then [] # split_commas cs
      else (case split_commas cs of t # ts \<Rightarrow> (c # t) # ts | [] \<Rightarrow> [[c]]))"

section \<open>The store\<close>

text \<open>
  The five tables of the schema that the load generator touches (\<^verbatim>\<open>configs\<close> is created
  and never used). A table is the list of its rows in insertion order. A column declared
  \<^verbatim>\<open>NULL\<close> holds an option. \<open>rowid\<close> is the next value of \<^verbatim>\<open>unique_rowid()\<close>, the
  default of every \<^verbatim>\<open>id\<close> column: the store hands out a fresh key at every insert, so
  that an insert never meets the primary key of another row of its table; only the
  composite primary key of \<^verbatim>\<open>user_groups\<close>, which the program supplies, is checked.
\<close>

record user_row =
  u_id :: int
  u_uid :: "string option"
  u_passwordhash :: "string option"
  u_utype :: "string option"
  u_description :: "string option"
  u_is_remote :: "bool option"

record group_row =
  g_id :: int
  g_gid :: "string option"
  g_description :: "string option"

record resource_row =
  r_id :: int
  r_rid :: "string option"
  r_description :: "string option"

record user_group_row =
  ug_user_id :: int
  ug_group_id :: int

record ace_row =
  a_id :: int
  a_user_id :: "int option"
  a_group_id :: "int option"
  a_resource_id :: "int option"
  a_actions :: "string option"

record store =
  users :: "user_row list"
  groups :: "group_row list"
  resources :: "resource_row list"
  user_groups :: "user_group_row list"
  aces :: "ace_row list"
  rowid :: int

text \<open>
  What a statement or a transaction can fail with: \<^verbatim>\<open>sql.ErrNoRows\<close>, a \<^verbatim>\<open>Scan\<close> of
  \<^verbatim>\<open>NULL\<close> into a Go string, the violation of a uniqueness or check constraint of the
  schema, and the three panics of the program.
\<close>

datatype error =
    ErrNoRows
  | ScanError
  | UniqueViolation
  | CheckViolation
  | PanicNotSane
  | PanicDivideByZero
  | PanicRemoveData error

type_synonym tx = "store \<Rightarrow> error + store"

subsection \<open>Statements\<close>

text \<open>\<^verbatim>\<open>createSchema\<close>: drops and recreates the database; every table is empty afterwards.\<close>

definition createSchema :: tx where
  "createSchema s =
     Inr \<lparr>users = [], groups = [], resources = [], user_groups = [], aces = [], rowid = rowid s\<rparr>"

text \<open>
  \<^verbatim>\<open>INSERT INTO users\<close>, under \<^verbatim>\<open>UNIQUE INDEX users_uid_key\<close> and the check
  \<^verbatim>\<open>usertype\<close>; likewise for the other tables, each under the constraints the schema
  declares for it. Two \<^verbatim>\<open>NULL\<close>s never collide in a unique index.
\<close>

definition insert_user ::
  "string \<Rightarrow> string \<Rightarrow> string \<Rightarrow> string \<Rightarrow> bool \<Rightarrow> tx" where
  "insert_user uid passwordhash utype description isRemote s =
     (if utype \<noteq> ''regular'' \<and> utype \<noteq> ''service'' then Inl CheckViolation
      else if \<exists>u \<in> set (users s). u_uid u = Some uid then Inl UniqueViolation
      else Inr (s\<lparr>users := users s @
                  [\<lparr>u_id = rowid s, u_uid = Some uid, u_passwordhash = Some passwordhash,
                    u_utype = Some utype, u_description = Some description,
                    u_is_remote = Some isRemote\<rparr>],
                rowid := rowid s + 1\<rparr>))"

definition insert_group :: "string \<Rightarrow> string \<Rightarrow> tx" where
  "insert_group gid description s =
     (if \<exists>g \<in> set (groups s). g_gid g = Some gid then Inl UniqueViolation
      else Inr (s\<lparr>groups := groups s @
                  [\<lparr>g_id = rowid s, g_gid = Some gid, g_description = Some description\<rparr>],
                rowid := rowid s + 1\<rparr>))"

definition insert_resource :: "string \<Rightarrow> string \<Rightarrow> tx" where
  "insert_resource rid description s =
     (if \<exists>r \<in> set (resources s). r_rid r = Some rid then Inl UniqueViolation
      else Inr (s\<lparr>resources := resources s @
                  [\<lparr>r_id = rowid s, r_rid = Some rid, r_description = Some description\<rparr>],
                rowid := rowid s + 1\<rparr>))"

definition insert_user_group :: "int \<Rightarrow> int \<Rightarrow> tx" where
  "insert_user_group userId groupId s =
     (if \<exists>m \<in> set (user_groups s). ug_user_id m = userId \<and> ug_group_id m = groupId
      then Inl UniqueViolation
      else Inr (s\<lparr>user_groups := user_groups s @
                  [\<lparr>ug_user_id = userId, ug_group_id = groupId\<rparr>]\<rparr>))"

definition insert_ace ::
  "int option \<Rightarrow> int option \<Rightarrow> int option \<Rightarrow> string option \<Rightarrow> tx" where
  "insert_ace userId groupId resourceId actions s =
     (if userId \<noteq> None \<and> resourceId \<noteq> None \<and>
         (\<exists>a \<in> set (aces s). a_user_id a = userId \<and> a_resource_id a = resourceId)
      then Inl UniqueViolation
      else if groupId \<noteq> None \<and> resourceId \<noteq> None \<and>
         (\<exists>a \<in> set (aces s). a_group_id a = groupId \<and> a_resource_id a = resourceId)
      then Inl UniqueViolation
      else Inr (s\<lparr>aces := aces s @
                  [\<lparr>a_id = rowid s, a_user_id = userId, a_group_id = groupId,
                    a_resource_id = resourceId, a_actions = actions\<rparr>],
                rowid := rowid s + 1\<rparr>))"

text \<open>\<^verbatim>\<open>UPDATE aces SET actions = $1 WHERE aces.id=$2\<close>\<close>

definition update_ace_actions :: "string \<Rightarrow> int \<Rightarrow> tx" where
  "update_ace_actions actionstr aceId s =
     Inr (s\<lparr>aces := map (\<lambda>a. if a_id a = aceId then a\<lparr>a_actions := Some actionstr\<rparr> else a)
                        (aces s)\<rparr>)"

text \<open>
  \<^verbatim>\<open>tx.QueryRow(...)\<close> followed by \<^verbatim>\<open>row.Scan\<close>: the first selected row, or
  \<^verbatim>\<open>sql.ErrNoRows\<close>. The \<^verbatim>\<open>id\<close> columns are \<^verbatim>\<open>NOT NULL\<close>; \<^verbatim>\<open>aces.actions\<close> may be
  \<^verbatim>\<open>NULL\<close>, which \<^verbatim>\<open>Scan\<close> cannot store into a string.
\<close>

definition select_user_id :: "string \<Rightarrow> store \<Rightarrow> error + int" where
  "select_user_id pat s =
     (case find (\<lambda>u. like_null (u_uid u) pat) (users s) of
        None \<Rightarrow> Inl ErrNoRows | Some u \<Rightarrow> Inr (u_id u))"

definition select_group_id :: "string \<Rightarrow> store \<Rightarrow> error + int" where
  "select_group_id pat s =
     (case find (\<lambda>g. like_null (g_gid g) pat) (groups s) of
        None \<Rightarrow> Inl ErrNoRows | Some g \<Rightarrow> Inr (g_id g))"

definition select_resource_id :: "string \<Rightarrow> store \<Rightarrow> error + int" where
  "select_resource_id pat s =
     (case find (\<lambda>r. like_null (r_rid r) pat) (resources s) of
        None \<Rightarrow> Inl ErrNoRows | Some r \<Rightarrow> Inr (r_id r))"

definition scan_ace :: "ace_row option \<Rightarrow> error + string \<times> int" where
  "scan_ace row =
     (case row of
        None \<Rightarrow> Inl ErrNoRows
      | Some a \<Rightarrow> (case a_actions a of None \<Rightarrow> Inl ScanError
                                     | Some actionstr \<Rightarrow> Inr (actionstr, a_id a)))"

definition select_user_ace :: "int \<Rightarrow> int \<Rightarrow> store \<Rightarrow> error + string \<times> int" where
  "select_user_ace userId resourceId s =
     scan_ace (find (\<lambda>a. a_user_id a = Some userId \<and> a_resource_id a = Some resourceId)
                    (aces s))"

definition select_group_ace :: "int \<Rightarrow> int \<Rightarrow> store \<Rightarrow> error + string \<times> int" where
  "select_group_ace groupId resourceId s =
     scan_ace (find (\<lambda>a. a_group_id a = Some groupId \<and> a_resource_id a = Some resourceId)
                    (aces s))"

subsection \<open>Transactions and loops\<close>

text \<open>
  \<^verbatim>\<open>crdb.ExecuteTx(db, fn)\<close> in a run with no conflict: the body runs once; when it
  fails, its writes are rolled back and the error is returned, otherwise they are committed.
  A procedure of several transactions returns its error, if any, together with the store
  as the committed transactions left it.
\<close>

definition ExecuteTx :: "tx \<Rightarrow> store \<Rightarrow> error option \<times> store" where
  "ExecuteTx body s = (case body s of Inl e \<Rightarrow> (Some e, s) | Inr s' \<Rightarrow> (None, s'))"

text \<open>
  A retried transaction, as \<^verbatim>\<open>crdb.ExecuteTx\<close> runs one after a retryable conflict: a
  first attempt of the body ran, its writes were rolled back, and the body runs again on
  the restored tables. Whether the store hands out again a key that the abandoned attempt
  drew from \<^verbatim>\<open>unique_rowid()\<close> is the store's affair; \<open>keys_restored\<close> tells.
\<close>

definition after_attempt :: "tx \<Rightarrow> store \<Rightarrow> store" where
  "after_attempt body s = (case body s of Inl e \<Rightarrow> s | Inr s1 \<Rightarrow> s1)"

definition rollback :: "bool \<Rightarrow> store \<Rightarrow> store \<Rightarrow> store" where
  "rollback keys_restored before after =
     (if keys_restored then before else before\<lparr>rowid := rowid after\<rparr>)"

definition ExecuteTx_retried :: "bool \<Rightarrow> tx \<Rightarrow> store \<Rightarrow> error option \<times> store" where
  "ExecuteTx_retried keys_restored body s =
     ExecuteTx body (rollback keys_restored s (after_attempt body s))"

text \<open>
  A loop whose body may fail: \<^verbatim>\<open>for _, x := range xs { if err := f(x); err != nil
  { return err } }\<close>, over any loop state. \<open>go_range n\<close> lists the values that
  \<^verbatim>\<open>for ii := 0; ii < n; ii++\<close> gives to \<^verbatim>\<open>ii\<close>.
\<close>

fun for_each :: "'a list \<Rightarrow> ('a \<Rightarrow> 'st \<Rightarrow> error option \<times> 'st) \<Rightarrow> 'st \<Rightarrow> error option \<times> 'st" where
  "for_each [] f s = (None, s)"
| "for_each (x # xs) f s =
     (case f x s of (Some e, s') \<Rightarrow> (Some e, s') | (None, s') \<Rightarrow> for_each xs f s')"

definition go_range :: "go_int \<Rightarrow> go_int list" where
  "go_range n = map of_nat [0..<nat (sint n)]"

text \<open>Go's \<^verbatim>\<open>%\<close> on \<^verbatim>\<open>int\<close>: the remainder of the division that truncates towards zero.\<close>

definition go_rem :: "go_int \<Rightarrow> go_int \<Rightarrow> go_int" where
  "go_rem a b = word_of_int (sint a smod sint b)"

section \<open>The workload executor\<close>

text \<open>
  The logging wrappers \<^verbatim>\<open>logTiming\<close> and \<^verbatim>\<open>logTimingV\<close> run their function argument and
  return its error; they are left out. For each Go function that hands a closure to
  \<^verbatim>\<open>crdb.ExecuteTx\<close>, the closure is the definition with suffix \<open>_tx\<close>.
\<close>

definition addUser_tx :: "go_int \<Rightarrow> tx" where
  "addUser_tx userid s =
     (let uid = Itoa userid;
          passwordhash = ''$6$rounds=656000$WZdTPdpxUZsDG5PG$6om6ApIm5l5639JNAUmtFD87cIXdWCAVKeJ4zNlhmPKWT3PARF6Ai.HpcjR8SPQSQnqoefBiLaZmPuMFhGhpm0'';
          utype = ''regular'';
          description = ''some description'';
          isRemote = False
      in insert_user uid passwordhash utype description isRemote s)"

definition addUser :: "go_int \<Rightarrow> store \<Rightarrow> error option \<times> store" where
  "addUser userid = ExecuteTx (addUser_tx userid)"

definition addUsers :: "go_int \<Rightarrow> store \<Rightarrow> error option \<times> store" where
  "addUsers users_n = for_each (go_range users_n) (\<lambda>ii. addUser ii)"

definition addGroup_tx :: "go_int \<Rightarrow> tx" where
  "addGroup_tx groupid s =
     (let gid = Itoa groupid;
          description = ''some description''
      in insert_group gid description s)"

definition addGroup :: "go_int \<Rightarrow> store \<Rightarrow> error option \<times> store" where
  "addGroup groupid = ExecuteTx (addGroup_tx groupid)"

definition addGroups :: "go_int \<Rightarrow> store \<Rightarrow> error option \<times> store" where
  "addGroups groups_n = for_each (go_range groups_n) (\<lambda>ii. addGroup ii)"

definition addUserToGroup_tx :: "go_int \<Rightarrow> go_int \<Rightarrow> tx" where
  "addUserToGroup_tx grp user s =
     (case select_user_id (Itoa user) s of
        Inl err \<Rightarrow> Inl err
      | Inr userId \<Rightarrow>
          (case select_group_id (Itoa grp) s of
             Inl err \<Rightarrow> Inl err
           | Inr groupId \<Rightarrow> insert_user_group userId groupId s))"

definition addUserToGroup :: "go_int \<Rightarrow> go_int \<Rightarrow> store \<Rightarrow> error option \<times> store" where
  "addUserToGroup grp user = ExecuteTx (addUserToGroup_tx grp user)"

text \<open>
  \<^verbatim>\<open>assignUsersToGroups\<close>: the loop state is the running \<^verbatim>\<open>user\<close> counter and the store.
  \<^verbatim>\<open>user % users\<close> panics when \<^verbatim>\<open>users\<close> is zero.
\<close>

definition assignUsersToGroups ::
  "go_int \<Rightarrow> go_int \<Rightarrow> go_int \<Rightarrow> store \<Rightarrow> error option \<times> store" where
  "assignUsersToGroups members groups_n users_n s =
     (case for_each (go_range groups_n)
             (\<lambda>grp. for_each (go_range members)
                (\<lambda>ii (user, s).
                   case addUserToGroup grp user s of
                     (Some err, s') \<Rightarrow> (Some err, (user, s'))
                   | (None, s') \<Rightarrow>
                       (let user = user + 1
                        in if users_n = 0 then (Some PanicDivideByZero, (user, s'))
                           else (None, (go_rem user users_n, s')))))
             (0, s)
      of (err, (user, s')) \<Rightarrow> (err, s'))"

definition addResource_tx :: "string \<Rightarrow> tx" where
  "addResource_tx resource s =
     (let description = ''some description''
      in insert_resource resource description s)"

definition addResource :: "string \<Rightarrow> store \<Rightarrow> error option \<times> store" where
  "addResource resource = ExecuteTx (addResource_tx resource)"

definition actions :: "string list" where
  "actions = [''create'', ''read'', ''update'', ''delete'']"

text \<open>
  The ACE upsert of the user path. \<^verbatim>\<open>actionstr\<close> and \<^verbatim>\<open>aceId\<close> keep their zero values
  when no row is found, which is not an error.
\<close>

definition allowUserAccessToResource_tx :: "string \<Rightarrow> string \<Rightarrow> go_int \<Rightarrow> tx" where
  "allowUserAccessToResource_tx action resource uid s =
     (case select_resource_id resource s of
        Inl err \<Rightarrow> Inl err
      | Inr resourceId \<Rightarrow>
          (case select_user_id (Itoa uid) s of
             Inl err \<Rightarrow> Inl err
           | Inr userId \<Rightarrow>
               (case select_user_ace userId resourceId s of
                  Inl err \<Rightarrow>
                    if err \<noteq> ErrNoRows then Inl err
                    else insert_ace (Some userId) None (Some resourceId) (Some action) s
                | Inr (actionstr, aceId) \<Rightarrow>
                    if length actionstr > 0
                    then update_ace_actions (actionstr @ '','' @ action) aceId s
                    else insert_ace (Some userId) None (Some resourceId) (Some action) s)))"

definition allowUserAccessToResource ::
  "string \<Rightarrow> go_int \<Rightarrow> store \<Rightarrow> error option \<times> store" where
  "allowUserAccessToResource resource uid =
     for_each actions (\<lambda>action. ExecuteTx (allowUserAccessToResource_tx action resource uid))"

definition assignUserPermissions :: "go_int \<Rightarrow> go_int \<Rightarrow> store \<Rightarrow> error option \<times> store" where
  "assignUserPermissions permissions users_n =
     for_each (go_range permissions)
       (\<lambda>permission s.
          let resource = userResourceName permission
          in case addResource resource s of
               (Some err, s') \<Rightarrow> (Some err, s')
             | (None, s') \<Rightarrow>
                 for_each (go_range users_n)
                   (\<lambda>user. allowUserAccessToResource resource user) s')"

text \<open>The ACE upsert of the group path.\<close>

definition allowGroupAccessToResource_tx :: "string \<Rightarrow> string \<Rightarrow> go_int \<Rightarrow> tx" where
  "allowGroupAccessToResource_tx action resource gid s =
     (case select_resource_id resource s of
        Inl err \<Rightarrow> Inl err
      | Inr resourceId \<Rightarrow>
          (case select_group_id (Itoa gid) s of
             Inl err \<Rightarrow> Inl err
           | Inr groupId \<Rightarrow>
               (case select_group_ace groupId resourceId s of
                  Inl err \<Rightarrow>
                    if err \<noteq> ErrNoRows then Inl err
                    else insert_ace None (Some groupId) (Some resourceId) (Some action) s
                | Inr (actionstr, aceId) \<Rightarrow>
                    if length actionstr > 0
                    then update_ace_actions (actionstr @ '','' @ action) aceId s
                    else insert_ace None (Some groupId) (Some resourceId) (Some action) s)))"

definition allowGroupAccessToResource ::
  "string \<Rightarrow> go_int \<Rightarrow> store \<Rightarrow> error option \<times> store" where
  "allowGroupAccessToResource resource gid =
     for_each actions (\<lambda>action. ExecuteTx (allowGroupAccessToResource_tx action resource gid))"

definition assignGroupPermissions :: "go_int \<Rightarrow> go_int \<Rightarrow> store \<Rightarrow> error option \<times> store" where
  "assignGroupPermissions permissions groups_n =
     for_each (go_range permissions)
       (\<lambda>permission s.
          let resource = groupResourceName permission
          in case addResource resource s of
               (Some err, s') \<Rightarrow> (Some err, s')
             | (None, s') \<Rightarrow>
                 for_each (go_range groups_n)
                   (\<lambda>grp. allowGroupAccessToResource resource grp) s')"

text \<open>\<^verbatim>\<open>prepareData\<close>: the sanity assertion, then the five phases, each returning early on an error.\<close>

definition prepareData :: "recordCount \<Rightarrow> store \<Rightarrow> error option \<times> store" where
  "prepareData counts s =
     (if \<not> sane counts then (Some PanicNotSane, s)
      else case addUsers (counts ! Users) s of
        (Some err, s1) \<Rightarrow> (Some err, s1)
      | (None, s1) \<Rightarrow>
      (case addGroups (counts ! Groups) s1 of
        (Some err, s2) \<Rightarrow> (Some err, s2)
      | (None, s2) \<Rightarrow>
      (case assignUsersToGroups (counts ! Members) (counts ! Groups) (counts ! Users) s2 of
        (Some err, s3) \<Rightarrow> (Some err, s3)
      | (None, s3) \<Rightarrow>
      (case assignUserPermissions (counts ! UserPermissions) (counts ! Users) s3 of
        (Some err, s4) \<Rightarrow> (Some err, s4)
      | (None, s4) \<Rightarrow>
      (case assignGroupPermissions (counts ! GroupPermissions) (counts ! Groups) s4 of
        (Some err, s5) \<Rightarrow> (Some err, s5)
      | (None, s5) \<Rightarrow> (None, s5))))))"

section \<open>The teardown orchestrator\<close>

text \<open>
  \<^verbatim>\<open>findUsers\<close>, \<^verbatim>\<open>findGroups\<close>, \<^verbatim>\<open>findResources\<close>: every business key of a table, in
  the order of the rows; a \<^verbatim>\<open>NULL\<close> key fails the \<^verbatim>\<open>Scan\<close> into a string.
\<close>

definition scan_keys :: "string option list \<Rightarrow> error + string list" where
  "scan_keys ks = (case those ks of None \<Rightarrow> Inl ScanError | Some uids \<Rightarrow> Inr uids)"

definition findUsers :: "store \<Rightarrow> error + string list" where
  "findUsers s = scan_keys (map u_uid (users s))"

definition findGroups :: "store \<Rightarrow> error + string list" where
  "findGroups s = scan_keys (map g_gid (groups s))"

definition findResources :: "store \<Rightarrow> error + string list" where
  "findResources s = scan_keys (map r_rid (resources s))"

definition removeUser_tx :: "string \<Rightarrow> tx" where
  "removeUser_tx uid s =
     (case select_user_id uid s of
        Inl err \<Rightarrow> Inl err
      | Inr id' \<Rightarrow>
          (let s = s\<lparr>user_groups := filter (\<lambda>m. ug_user_id m \<noteq> id') (user_groups s)\<rparr>;
               s = s\<lparr>aces := filter (\<lambda>a. a_user_id a \<noteq> Some id') (aces s)\<rparr>;
               s = s\<lparr>users := filter (\<lambda>u. u_id u \<noteq> id') (users s)\<rparr>
           in Inr s))"

definition removeUser :: "string \<Rightarrow> store \<Rightarrow> error option \<times> store" where
  "removeUser uid = ExecuteTx (removeUser_tx uid)"

definition removeUsers :: "store \<Rightarrow> error option \<times> store" where
  "removeUsers s =
     (case findUsers s of
        Inl err \<Rightarrow> (Some err, s)
      | Inr uids \<Rightarrow> for_each uids (\<lambda>uid. removeUser uid) s)"

definition removeGroup_tx :: "string \<Rightarrow> tx" where
  "removeGroup_tx gid s =
     (case select_group_id gid s of
        Inl err \<Rightarrow> Inl err
      | Inr id' \<Rightarrow>
          (let s = s\<lparr>user_groups := filter (\<lambda>m. ug_group_id m \<noteq> id') (user_groups s)\<rparr>;
               s = s\<lparr>aces := filter (\<lambda>a. a_group_id a \<noteq> Some id') (aces s)\<rparr>;
               s = s\<lparr>groups := filter (\<lambda>g. g_id g \<noteq> id') (groups s)\<rparr>
           in Inr s))"

definition removeGroup :: "string \<Rightarrow> store \<Rightarrow> error option \<times> store" where
  "removeGroup gid = ExecuteTx (removeGroup_tx gid)"

definition removeGroups :: "store \<Rightarrow> error option \<times> store" where
  "removeGroups s =
     (case findGroups s of
        Inl err \<Rightarrow> (Some err, s)
      | Inr gids \<Rightarrow> for_each gids (\<lambda>gid. removeGroup gid) s)"

definition removeResource_tx :: "string \<Rightarrow> tx" where
  "removeResource_tx rid s =
     (case select_resource_id rid s of
        Inl err \<Rightarrow> Inl err
      | Inr id' \<Rightarrow>
          (let s = s\<lparr>aces := filter (\<lambda>a. a_resource_id a \<noteq> Some id') (aces s)\<rparr>;
               s = s\<lparr>resources := filter (\<lambda>r. r_id r \<noteq> id') (resources s)\<rparr>
           in Inr s))"

definition removeResource :: "string \<Rightarrow> store \<Rightarrow> error option \<times> store" where
  "removeResource rid = ExecuteTx (removeResource_tx rid)"

definition removeResources :: "store \<Rightarrow> error option \<times> store" where
  "removeResources s =
     (case findResources s of
        Inl err \<Rightarrow> (Some err, s)
      | Inr rids \<Rightarrow> for_each rids (\<lambda>rid. removeResource rid) s)"

definition removeData :: "store \<Rightarrow> error option \<times> store" where
  "removeData s =
     (case removeUsers s of
        (Some err, s1) \<Rightarrow> (Some err, s1)
      | (None, s1) \<Rightarrow>
      (case removeGroups s1 of
        (Some err, s2) \<Rightarrow> (Some err, s2)
      | (None, s2) \<Rightarrow>
      (case removeResources s2 of
        (Some err, s3) \<Rightarrow> (Some err, s3)
      | (None, s3) \<Rightarrow> (None, s3))))"

section \<open>The iteration driver\<close>

text \<open>
  \<^verbatim>\<open>runWithCounts\<close>: a tuple that is not sane is skipped. Otherwise the deferred teardown
  runs once the load has returned, whatever the load returned, and panics with its own
  error when it fails.
\<close>

definition runWithCounts :: "recordCount \<Rightarrow> store \<Rightarrow> error option \<times> store" where
  "runWithCounts counts s =
     (if \<not> sane counts then (None, s)
      else case prepareData counts s of
        (err, s1) \<Rightarrow>
          (case removeData s1 of
             (Some cerr, s2) \<Rightarrow> (Some (PanicRemoveData cerr), s2)
           | (None, s2) \<Rightarrow> (err, s2)))"

section \<open>Notions the properties are stated with\<close>

text \<open>The ACE rows of a (user, resource) pair and of a (group, resource) pair, by surrogate keys.\<close>

definition user_aces :: "int \<Rightarrow> int \<Rightarrow> store \<Rightarrow> ace_row list" where
  "user_aces userId resourceId s =
     filter (\<lambda>a. a_user_id a = Some userId \<and> a_resource_id a = Some resourceId) (aces s)"

definition group_aces :: "int \<Rightarrow> int \<Rightarrow> store \<Rightarrow> ace_row list" where
  "group_aces groupId resourceId s =
     filter (\<lambda>a. a_group_id a = Some groupId \<and> a_resource_id a = Some resourceId) (aces s)"

text \<open>An ACE row without its store-assigned key, and two stores that agree on all else.\<close>

definition ace_content :: "ace_row \<Rightarrow> int option \<times> int option \<times> int option \<times> string option" where
  "ace_content a = (a_user_id a, a_group_id a, a_resource_id a, a_actions a)"

definition same_content :: "store \<Rightarrow> store \<Rightarrow> bool" where
  "same_content s t \<longleftrightarrow>
     users s = users t \<and> groups s = groups t \<and> resources s = resources t \<and>
     user_groups s = user_groups t \<and> map ace_content (aces s) = map ace_content (aces t)"

definition empty_tables :: "store \<Rightarrow> bool" where
  "empty_tables s \<longleftrightarrow>
     users s = [] \<and> groups s = [] \<and> resources s = [] \<and> user_groups s = [] \<and> aces s = []"

text \<open>The errors that are panics of the program, as opposed to errors of the store.\<close>

fun is_panic :: "error \<Rightarrow> bool" where
  "is_panic PanicNotSane = True"
| "is_panic PanicDivideByZero = True"
| "is_panic (PanicRemoveData e) = True"
| "is_panic e = False"

text \<open>A principal is a user or a group, never both and never neither.\<close>

definition one_principal :: "ace_row \<Rightarrow> bool" where
  "one_principal a \<longleftrightarrow> (a_user_id a = None) \<noteq> (a_group_id a = None)"

text \<open>
  The stores the program can reach: the schema is created, then any of its transactions
  commits, with the arguments the program gives it (a resource name is always made by
  \<^verbatim>\<open>userResourceName\<close> or \<^verbatim>\<open>groupResourceName\<close>, an action is one of the four).
\<close>

inductive reachable :: "store \<Rightarrow> bool" where
  r_createSchema: "createSchema s0 = Inr s \<Longrightarrow> reachable s"
| r_addUser: "reachable s \<Longrightarrow> addUser_tx userid s = Inr s' \<Longrightarrow> reachable s'"
| r_addGroup: "reachable s \<Longrightarrow> addGroup_tx groupid s = Inr s' \<Longrightarrow> reachable s'"
| r_addUserToGroup: "reachable s \<Longrightarrow> addUserToGroup_tx grp user s = Inr s' \<Longrightarrow> reachable s'"
| r_addUserResource:
    "reachable s \<Longrightarrow> addResource_tx (userResourceName permission) s = Inr s' \<Longrightarrow> reachable s'"
| r_addGroupResource:
    "reachable s \<Longrightarrow> addResource_tx (groupResourceName permission) s = Inr s' \<Longrightarrow> reachable s'"
| r_allowUser:
    "reachable s \<Longrightarrow> action \<in> set actions \<Longrightarrow>
     allowUserAccessToResource_tx action (userResourceName permission) uid s = Inr s' \<Longrightarrow>
     reachable s'"
| r_allowGroup:
    "reachable s \<Longrightarrow> action \<in> set actions \<Longrightarrow>
     allowGroupAccessToResource_tx action (groupResourceName permission) gid s = Inr s' \<Longrightarrow>
     reachable s'"
| r_removeUser: "reachable s \<Longrightarrow> removeUser_tx uid s = Inr s' \<Longrightarrow> reachable s'"
| r_removeGroup: "reachable s \<Longrightarrow> removeGroup_tx gid s = Inr s' \<Longrightarrow> reachable s'"
| r_removeResource: "reachable s \<Longrightarrow> removeResource_tx rid s = Inr s' \<Longrightarrow> reachable s'"

text \<open>
  What the teardown relies on. A business key is \<open>plain\<close> when \<^verbatim>\<open>LIKE\<close> reads it as
  itself; the keys of a table are in order when every key is present and plain, no two rows
  share a business key or a surrogate key, and every surrogate key was handed out before.
\<close>

definition plain :: "string \<Rightarrow> bool" where
  "plain p \<longleftrightarrow> CHR ''%'' \<notin> set p \<and> CHR ''_'' \<notin> set p"

definition keys_ok :: "('r \<Rightarrow> string option) \<Rightarrow> ('r \<Rightarrow> int) \<Rightarrow> 'r list \<Rightarrow> int \<Rightarrow> bool" where
  "keys_ok key ident rows next_id \<longleftrightarrow>
     (\<forall>x \<in> set rows. \<exists>k. key x = Some k \<and> plain k) \<and>
     distinct (map key rows) \<and> distinct (map ident rows) \<and>
     (\<forall>x \<in> set rows. ident x < next_id)"

definition inv :: "store \<Rightarrow> bool" where
  "inv s \<longleftrightarrow>
     keys_ok u_uid u_id (users s) (rowid s) \<and>
     keys_ok g_gid g_id (groups s) (rowid s) \<and>
     keys_ok r_rid r_id (resources s) (rowid s) \<and>
     (\<forall>m \<in> set (user_groups s). ug_user_id m \<in> u_id ` set (users s)) \<and>
     (\<forall>a \<in> set (aces s). \<exists>r \<in> set (resources s). a_resource_id a = Some (r_id r))"

text \<open>
  Stores for the examples: the fresh schema; one user and one resource on it; one group and
  one resource on it; and the load of the tuple \<open>{users: 2, groups: 1, members: 1, user-permissions: 1,
  group-permissions: 1}\<close>.
\<close>

definition fresh_store :: store where
  "fresh_store =
     \<lparr>users = [], groups = [], resources = [], user_groups = [], aces = [], rowid = 0\<rparr>"

definition small_store :: store where
  "small_store = snd (addResource (userResourceName 0) (snd (addUser 0 fresh_store)))"

definition small_group_store :: store where
  "small_group_store = snd (addResource (groupResourceName 0) (snd (addGroup 0 fresh_store)))"

definition loaded_store :: store where
  "loaded_store = snd (prepareData [2, 1, 1, 1, 1] fresh_store)"

section \<open>Properties\<close>

subsection \<open>The planner in closed form\<close>

lemma upt5: "[0..<5] = [0, 1, 2, 3, 4::nat]"
  by code_simp

lemma recordCountForIteration_closed:
  "recordCountForIteration i =
     (if signed_drop_bit 5 i = i then [0, 0, 0, 0, 0]
      else map (\<lambda>rt. signed_drop_bit 5 i * 20 + (if bit i rt then 20 else 0)) [0, 1, 2, 3, 4])"
  apply (simp add: recordCountForIteration_def LastRecordType_def Let_def upt5
      and_exp_eq_0_iff_not_bit)
  apply (simp add: numeral_eq_Suc)
  done

lemma sint_nonneg_bounds:
  fixes i :: go_int
  assumes "0 \<le>s i"
  shows "0 \<le> sint i" "sint i < 2 ^ 63"
  using assms sint_lt [of i] by (simp_all add: word_sle_eq)

lemma sint_baseline:
  fixes i :: go_int
  shows "sint (signed_drop_bit 5 i) = sint i div 32"
  by (simp add: sint_signed_drop_bit_eq drop_bit_eq_div)

text \<open>No component overflows for a non-negative counter: the words compute the integers.\<close>

lemma sint_component:
  fixes i :: go_int
  assumes "0 \<le>s i"
  shows "sint (signed_drop_bit 5 i * 20 + (if b then 20 else 0))
         = (sint i div 32) * 20 + (if b then 20 else 0)"
proof -
  let ?k = "sint i div 32"
  have k: "0 \<le> ?k" "?k < 2 ^ 58"
    using sint_nonneg_bounds [OF assms] by simp_all
  have m: "sint (signed_drop_bit 5 i * 20) = ?k * 20"
    using k by (simp add: sint_word_mult sint_baseline signed_take_bit_int_eq_self)
  have c: "sint (if b then 20 else 0 :: go_int) = (if b then 20 else 0)"
    by simp
  show ?thesis
    using k by (simp only: sint_word_add m c) (simp add: signed_take_bit_int_eq_self)
qed

lemma baseline_fixpoint:
  fixes i :: go_int
  assumes "0 \<le>s i"
  shows "signed_drop_bit 5 i = i \<longleftrightarrow> i = 0"
proof
  assume "signed_drop_bit 5 i = i"
  then have "sint i div 32 = sint i"
    using sint_baseline [of i] by simp
  with sint_nonneg_bounds(1) [OF assms] have "sint i = 0" by simp
  then have "word_of_int (sint i) = (word_of_int 0 :: go_int)" by simp
  then show "i = 0" by simp
qed simp

lemma low_bit_exists:
  fixes i :: go_int
  assumes "0 \<le>s i" "i \<noteq> 0" "sint i div 32 = 0"
  shows "\<exists>rt<5. bit i rt"
proof (rule ccontr)
  assume n: "\<not> (\<exists>rt<5. bit i rt)"
  have b: "0 \<le> sint i" "sint i < 32"
    using sint_nonneg_bounds(1) [OF assms(1)] assms(3) by (simp_all add: div_eq_0_iff)
  have "take_bit 5 (sint i) = sint i"
    using b by (simp add: take_bit_int_eq_self)
  moreover have "take_bit 5 (sint i) = 0"
    using n by (auto intro!: bit_eqI simp: bit_take_bit_iff bit_sint_iff)
  ultimately have "sint i = 0" by simp
  then have "word_of_int (sint i) = (word_of_int 0 :: go_int)" by simp
  with assms(2) show False by simp
qed


lemma sane_unfold:
  "sane [u, g, m, up, gp] \<longleftrightarrow>
     \<not> (0 <s m \<and> g = 0) \<and> \<not> (0 <s m \<and> u = 0) \<and> \<not> u <s m
     \<and> \<not> (0 <s up \<and> u = 0) \<and> \<not> (0 <s gp \<and> g = 0)"
  by (simp add: sane_def Users_def Groups_def Members_def UserPermissions_def
      GroupPermissions_def)

subsection \<open>The iteration planner\<close>

text \<open>
  Claim C4. For every non-negative iteration counter, the planner returns a tuple of five
  counts, each of them a non-negative multiple of 20 (read as a signed integer, so no
  count has wrapped around). The planner is a function of the counter alone: equal counters
  give equal tuples.
\<close>

theorem planner_multiples_of_20:
  fixes i :: go_int
  assumes "0 \<le>s i"
  shows "length (recordCountForIteration i) = LastRecordType
     \<and> (\<forall>c \<in> set (recordCountForIteration i). 0 \<le>s c \<and> 0 \<le> sint c \<and> 20 dvd sint c)
     \<and> (\<forall>j. j = i \<longrightarrow> recordCountForIteration j = recordCountForIteration i)"
proof -
  have "0 \<le> sint i div 32"
    using sint_nonneg_bounds [OF assms] by simp
  then show ?thesis
    by (auto simp: recordCountForIteration_closed LastRecordType_def word_sle_eq
        sint_component [OF assms])
qed

theorem planner_multiples_of_20_witness:
  "0 \<le>s (33 :: go_int)
   \<and> length (recordCountForIteration 33) = LastRecordType
   \<and> list_all (\<lambda>c. 0 \<le>s c \<and> 0 \<le> sint c \<and> 20 dvd sint c) (recordCountForIteration 33)"
proof -
  have h: "0 \<le>s (33 :: go_int)"
    by (simp add: word_sle_eq)
  show ?thesis
    unfolding list_all_iff using h planner_multiples_of_20 [OF h] by blast
qed

text \<open>
  Claim C9. For a non-negative counter, the planner returns the all-zero tuple exactly when
  the counter shifted right by five equals the counter, which happens only at counter 0.
  For every other counter, each component is the baseline (the shifted counter) times 20,
  plus 20 when the bit of its record type is set in the counter; the words compute these
  integers without wrapping.
\<close>

theorem planner_value:
  fixes i :: go_int
  assumes "0 \<le>s i"
  shows "(recordCountForIteration i = replicate LastRecordType 0 \<longleftrightarrow> signed_drop_bit LastRecordType i = i)
    \<and> (signed_drop_bit LastRecordType i = i \<longleftrightarrow> i = 0)
    \<and> (signed_drop_bit LastRecordType i \<noteq> i \<longrightarrow>
         length (recordCountForIteration i) = LastRecordType \<and>
         (\<forall>rt < LastRecordType.
            recordCountForIteration i ! rt
              = signed_drop_bit LastRecordType i * 20 + (if i AND push_bit rt 1 \<noteq> 0 then 20 else 0)
          \<and> sint (recordCountForIteration i ! rt)
              = (sint i div 2 ^ LastRecordType) * 20 + (if i AND push_bit rt 1 \<noteq> 0 then 20 else 0)))"
proof (intro conjI)
  show fp: "signed_drop_bit LastRecordType i = i \<longleftrightarrow> i = 0"
    using baseline_fixpoint [OF assms] by (simp add: LastRecordType_def)
  show "recordCountForIteration i = replicate LastRecordType 0 \<longleftrightarrow> signed_drop_bit LastRecordType i = i"
  proof
    assume z: "recordCountForIteration i = replicate LastRecordType 0"
    show "signed_drop_bit LastRecordType i = i"
    proof (rule ccontr)
      assume ne: "signed_drop_bit LastRecordType i \<noteq> i"
      then have i0: "i \<noteq> 0" using fp by simp
      have all0: "\<forall>rt<5. sint (signed_drop_bit 5 i * 20 + (if bit i rt then 20 else 0)) = 0"
      proof (intro allI impI)
        fix rt :: nat assume "rt < 5"
        then have "rt \<in> {0, 1, 2, 3, 4}" by auto
        moreover have "map (\<lambda>rt. signed_drop_bit 5 i * 20 + (if bit i rt then 20 else 0)) [0, 1, 2, 3, 4] = [0, 0, 0, 0, 0]" 
          using z ne by (simp add: recordCountForIteration_closed LastRecordType_def numeral_eq_Suc)
        ultimately have "signed_drop_bit 5 i * 20 + (if bit i rt then 20 else 0) = 0"
          by auto
        then show "sint (signed_drop_bit 5 i * 20 + (if bit i rt then 20 else 0)) = 0"
          by simp
      qed
      have k: "0 \<le> sint i div 32" using sint_nonneg_bounds [OF assms] by simp
      have "sint i div 32 * 20 + (if bit i 0 then 20 else 0) = 0"
        using all0 [rule_format, of 0] by (simp only: sint_component [OF assms])
      with k have "sint i div 32 = 0"
        by (simp split: if_splits)
      from low_bit_exists [OF assms i0 this] obtain rt where "rt < 5" "bit i rt" by blast
      with all0 k show False
        by (auto simp: sint_component [OF assms])
    qed
  next
    assume "signed_drop_bit LastRecordType i = i"
    then show "recordCountForIteration i = replicate LastRecordType 0"
      by (simp add: recordCountForIteration_closed LastRecordType_def numeral_eq_Suc)
  qed
  show "signed_drop_bit LastRecordType i \<noteq> i \<longrightarrow>
         length (recordCountForIteration i) = LastRecordType \<and>
         (\<forall>rt < LastRecordType.
            recordCountForIteration i ! rt
              = signed_drop_bit LastRecordType i * 20 + (if i AND push_bit rt 1 \<noteq> 0 then 20 else 0)
          \<and> sint (recordCountForIteration i ! rt)
              = (sint i div 2 ^ LastRecordType) * 20 + (if i AND push_bit rt 1 \<noteq> 0 then 20 else 0))"
  proof (intro impI conjI allI)
    assume ne: "signed_drop_bit LastRecordType i \<noteq> i"
    then show "length (recordCountForIteration i) = LastRecordType"
      by (simp add: recordCountForIteration_closed LastRecordType_def)
    fix rt assume "rt < LastRecordType"
    then have rt: "rt \<in> {0, 1, 2, 3, 4}" by (auto simp: LastRecordType_def)
    then show c: "recordCountForIteration i ! rt
              = signed_drop_bit LastRecordType i * 20 + (if i AND push_bit rt 1 \<noteq> 0 then 20 else 0)"
      using ne by (auto simp add: recordCountForIteration_closed LastRecordType_def and_exp_eq_0_iff_not_bit)
    show "sint (recordCountForIteration i ! rt)
              = (sint i div 2 ^ LastRecordType) * 20 + (if i AND push_bit rt 1 \<noteq> 0 then 20 else 0)"
      unfolding c using sint_component [OF assms, of "i AND push_bit rt 1 \<noteq> 0"]
      by (simp add: LastRecordType_def)
  qed
qed

theorem planner_value_witness:
  "0 \<le>s (33 :: go_int) \<and> signed_drop_bit LastRecordType (33 :: go_int) \<noteq> 33
   \<and> recordCountForIteration 33 \<noteq> replicate LastRecordType 0
   \<and> recordCountForIteration 33 ! Users = signed_drop_bit LastRecordType 33 * 20 + 20
   \<and> recordCountForIteration 33 ! Groups = signed_drop_bit LastRecordType 33 * 20
   \<and> sint (recordCountForIteration 33 ! Users) = 40
   \<and> sint (recordCountForIteration 33 ! Groups) = 20"
proof -
  have h: "0 \<le>s (33 :: go_int)"
    by (simp add: word_sle_eq)
  note t = planner_value [OF h]
  have n: "signed_drop_bit LastRecordType (33 :: go_int) \<noteq> 33"
    using t by simp
  have z: "recordCountForIteration 33 \<noteq> replicate LastRecordType 0"
    using t n by blast
  have a: "\<forall>rt < LastRecordType.
            recordCountForIteration 33 ! rt
              = signed_drop_bit LastRecordType 33 * 20 + (if 33 AND push_bit rt 1 \<noteq> (0 :: go_int) then 20 else 0)
          \<and> sint (recordCountForIteration 33 ! rt)
              = (sint (33 :: go_int) div 2 ^ LastRecordType) * 20 + (if 33 AND push_bit rt 1 \<noteq> (0 :: go_int) then 20 else 0)"
    using t n by blast
  have u: "recordCountForIteration 33 ! Users = signed_drop_bit LastRecordType 33 * 20 + 20"
    "sint (recordCountForIteration 33 ! Users) = 40"
    using a [rule_format, of Users] by (simp_all add: Users_def LastRecordType_def)
  have g: "recordCountForIteration 33 ! Groups = signed_drop_bit LastRecordType 33 * 20"
    "sint (recordCountForIteration 33 ! Groups) = 20"
    using a [rule_format, of Groups] by (simp_all add: Groups_def LastRecordType_def)
  show ?thesis
    using h n z u g by simp
qed

subsection \<open>The sanity validator\<close>

text \<open>
  Claim C5. The validator rejects every tuple with members-per-group above zero and no
  group, every tuple with members-per-group above zero and no user, every tuple with more
  members per group than users, every tuple with user permissions above zero and no user or
  group permissions above zero and no group; it accepts the all-zero tuple.
\<close>

theorem sane_rejects_and_accepts:
  "(0 <s m \<and> g = 0 \<longrightarrow> \<not> sane [u, g, m, up, gp])
   \<and> (0 <s m \<and> u = 0 \<longrightarrow> \<not> sane [u, g, m, up, gp])
   \<and> (u <s m \<longrightarrow> \<not> sane [u, g, m, up, gp])
   \<and> ((0 <s up \<and> u = 0) \<or> (0 <s gp \<and> g = 0) \<longrightarrow> \<not> sane [u, g, m, up, gp])
   \<and> sane [0, 0, 0, 0, 0]"
  by (simp add: sane_def Users_def Groups_def Members_def UserPermissions_def
      GroupPermissions_def)

theorem sane_rejects_and_accepts_witness:
  "(0 :: go_int) <s 1 \<and> \<not> sane [0, 0, 1, 1, 1] \<and> sane [0, 0, 0, 0, 0]"
  using sane_rejects_and_accepts [of 1 0 0 1 1] by (simp add: word_sless_eq word_sle_eq)

subsection \<open>Strings\<close>


lemma like_plain: "plain p \<Longrightarrow> like s p \<longleftrightarrow> s = p"
proof (induction p arbitrary: s)
  case Nil
  then show ?case by (cases s) simp_all
next
  case (Cons c p)
  then show ?case by (cases s) (auto simp: plain_def)
qed

lemma digit_char_plain: "d < 10 \<Longrightarrow> digit_char d \<noteq> CHR ''%'' \<and> digit_char d \<noteq> CHR ''_''"
proof -
  assume "d < 10"
  then have "d \<in> {0, 1, 2, 3, 4, 5, 6, 7, 8, 9}" by auto
  then show ?thesis by (auto simp: digit_char_def)
qed

lemma plain_digits: "plain (digits n)"
proof (induction n rule: digits.induct)
  case (1 n)
  show ?case
  proof (cases "n < 10")
    case True
    then show ?thesis
      using digit_char_plain [of n] by (subst digits.simps) (auto simp: plain_def)
  next
    case False
    have "n mod 10 < 10" by simp
    then show ?thesis
      using False 1 digit_char_plain [of "n mod 10"]
      by (subst digits.simps) (auto simp: plain_def)
  qed
qed

lemma plain_Itoa: "plain (Itoa i)"
  using plain_digits [of "nat (sint i)"] plain_digits [of "nat (- sint i)"]
  by (simp add: Itoa_def plain_def)

lemma plain_userResourceName: "plain (userResourceName n)"
  using plain_Itoa [of n] by (simp add: userResourceName_def plain_def)

lemma plain_groupResourceName: "plain (groupResourceName n)"
  using plain_Itoa [of n] by (simp add: groupResourceName_def plain_def)

lemma split_commas_not_Nil: "split_commas s \<noteq> []"
  by (induction s) (auto split: list.splits)

lemma split_commas_plain: "CHR '','' \<notin> set t \<Longrightarrow> split_commas t = [t]"
  by (induction t) auto

lemma split_commas_append:
  "CHR '','' \<notin> set t \<Longrightarrow> split_commas (s @ '','' @ t) = split_commas s @ [t]"
proof (induction s)
  case Nil
  then show ?case by (simp add: split_commas_plain)
next
  case (Cons c s)
  then show ?case
    using split_commas_not_Nil [of s] by (cases "split_commas s") auto
qed

lemma action_no_comma: "action \<in> set actions \<Longrightarrow> CHR '','' \<notin> set action \<and> action \<noteq> []"
  by (auto simp: actions_def)


subsection \<open>The ACE upsert, case by case\<close>

lemma find_filter_Nil: "filter P xs = [] \<Longrightarrow> find P xs = None"
  by (induction xs) (auto split: if_splits)

lemma filter_Nil_no: "filter P xs = [] \<Longrightarrow> x \<in> set xs \<Longrightarrow> \<not> P x"
  by (induction xs) (auto split: if_splits)

lemma find_append_new: "filter P xs = [] \<Longrightarrow> P x \<Longrightarrow> find P (xs @ [x]) = Some x"
  by (induction xs) (auto split: if_splits)

lemma split_commas_create_read: "set (split_commas ''create,read'') = {''create'', ''read''}"
  by simp

lemma allowUser_fresh:
  assumes r: "select_resource_id resource s = Inr resourceId"
    and u: "select_user_id (Itoa uid) s = Inr userId"
    and n: "user_aces userId resourceId s = []"
  shows "allowUserAccessToResource_tx action resource uid s =
     Inr (s\<lparr>aces := aces s @ [\<lparr>a_id = rowid s, a_user_id = Some userId, a_group_id = None,
             a_resource_id = Some resourceId, a_actions = Some action\<rparr>], rowid := rowid s + 1\<rparr>)"
proof -
  have f: "find (\<lambda>a. a_user_id a = Some userId \<and> a_resource_id a = Some resourceId) (aces s) = None"
    using n unfolding user_aces_def by (rule find_filter_Nil)
  have c: "\<not> (\<exists>a \<in> set (aces s). a_user_id a = Some userId \<and> a_resource_id a = Some resourceId)"
    using n filter_Nil_no unfolding user_aces_def by fastforce
  show ?thesis
    using c by (simp add: allowUserAccessToResource_tx_def r u select_user_ace_def f scan_ace_def insert_ace_def)
qed

lemma allowUser_merge:
  assumes r: "select_resource_id resource s = Inr resourceId"
    and u: "select_user_id (Itoa uid) s = Inr userId"
    and f: "find (\<lambda>a. a_user_id a = Some userId \<and> a_resource_id a = Some resourceId) (aces s) = Some a"
    and a: "a_actions a = Some actionstr" "actionstr \<noteq> []"
  shows "allowUserAccessToResource_tx action resource uid s =
     Inr (s\<lparr>aces := map (\<lambda>b. if a_id b = a_id a then b\<lparr>a_actions := Some (actionstr @ '','' @ action)\<rparr> else b) (aces s)\<rparr>)"
  using a by (simp add: allowUserAccessToResource_tx_def r u select_user_ace_def f scan_ace_def update_ace_actions_def)

subsection \<open>The example stores, evaluated\<close>

lemma small_store_eq:
  "small_store =
     \<lparr>users = [\<lparr>u_id = 0, u_uid = Some ''0'',
         u_passwordhash = Some ''$6$rounds=656000$WZdTPdpxUZsDG5PG$6om6ApIm5l5639JNAUmtFD87cIXdWCAVKeJ4zNlhmPKWT3PARF6Ai.HpcjR8SPQSQnqoefBiLaZmPuMFhGhpm0'',
         u_utype = Some ''regular'', u_description = Some ''some description'',
         u_is_remote = Some False\<rparr>],
      groups = [],
      resources = [\<lparr>r_id = 1, r_rid = Some ''user-resource-0'',
         r_description = Some ''some description''\<rparr>],
      user_groups = [], aces = [], rowid = 2\<rparr>"
  by code_simp

lemma loaded_store_tables:
  "resources loaded_store =
     [\<lparr>r_id = 3, r_rid = Some ''user-resource-0'', r_description = Some ''some description''\<rparr>,
      \<lparr>r_id = 6, r_rid = Some ''group-resource-0'', r_description = Some ''some description''\<rparr>]"
  "map u_uid (users loaded_store) = [Some ''0'', Some ''1'']"
  "map u_id (users loaded_store) = [0, 1]"
  "groups loaded_store = [\<lparr>g_id = 2, g_gid = Some ''0'', g_description = Some ''some description''\<rparr>]"
  "user_groups loaded_store = [\<lparr>ug_user_id = 0, ug_group_id = 2\<rparr>]"
  "aces loaded_store =
       [\<lparr>a_id = 4, a_user_id = Some 0, a_group_id = None, a_resource_id = Some 3,
           a_actions = Some ''create,read,update,delete''\<rparr>,
        \<lparr>a_id = 5, a_user_id = Some 1, a_group_id = None, a_resource_id = Some 3,
           a_actions = Some ''create,read,update,delete''\<rparr>,
        \<lparr>a_id = 7, a_user_id = None, a_group_id = Some 2, a_resource_id = Some 6,
           a_actions = Some ''create,read,update,delete''\<rparr>]"
  "rowid loaded_store = 8"
  by code_simp+

subsection \<open>The ACE upsert: merging, retrying, counting rows\<close>

lemma allowGroup_merge:
  assumes r: "select_resource_id resource s = Inr resourceId"
    and g: "select_group_id (Itoa gid) s = Inr groupId"
    and f: "find (\<lambda>a. a_group_id a = Some groupId \<and> a_resource_id a = Some resourceId) (aces s) = Some a"
    and a: "a_actions a = Some actionstr" "actionstr \<noteq> []"
  shows "allowGroupAccessToResource_tx action resource gid s =
     Inr (s\<lparr>aces := map (\<lambda>b. if a_id b = a_id a then b\<lparr>a_actions := Some (actionstr @ '','' @ action)\<rparr> else b) (aces s)\<rparr>)"
  using a by (simp add: allowGroupAccessToResource_tx_def r g select_group_ace_def f scan_ace_def update_ace_actions_def)

text \<open>Rewriting the actions of some rows leaves the first row of a pair where it was.\<close>

lemma find_map_update:
  assumes "find P xs = Some a" and "\<And>b. P (f b) = P b"
  shows "find P (map f xs) = Some (f a)"
  using assms by (induction xs) (auto split: if_splits)

lemma count_list_snoc: "count_list (xs @ [x]) y = count_list xs y + (if x = y then 1 else 0)"
  by (induction xs) auto

lemma count_list_pos: "x \<in> set xs \<Longrightarrow> 0 < count_list xs x"
  by (induction xs) auto

lemma token_appended:
  assumes "action \<in> set actions" and "action \<in> set (split_commas actionstr)"
  shows "actionstr \<noteq> []"
    and "split_commas (actionstr @ '','' @ action) = split_commas actionstr @ [action]"
    and "count_list (split_commas (actionstr @ '','' @ action)) action
         = count_list (split_commas actionstr) action + 1"
    and "2 \<le> count_list (split_commas (actionstr @ '','' @ action)) action"
proof -
  note n = action_no_comma [OF assms(1)]
  show "actionstr \<noteq> []" using assms(2) n by auto
  show s: "split_commas (actionstr @ '','' @ action) = split_commas actionstr @ [action]"
    using n split_commas_append [of action actionstr] by simp
  show "count_list (split_commas (actionstr @ '','' @ action)) action
         = count_list (split_commas actionstr) action + 1"
    by (simp only: s count_list_snoc) simp
  then show "2 \<le> count_list (split_commas (actionstr @ '','' @ action)) action"
    using count_list_pos [OF assms(2)] by simp
qed


lemma select_rowid:
  "select_resource_id p (s\<lparr>rowid := k\<rparr>) = select_resource_id p s"
  "select_user_id p (s\<lparr>rowid := k\<rparr>) = select_user_id p s"
  "select_group_id p (s\<lparr>rowid := k\<rparr>) = select_group_id p s"
  "select_user_ace u r (s\<lparr>rowid := k\<rparr>) = select_user_ace u r s"
  "select_group_ace g r (s\<lparr>rowid := k\<rparr>) = select_group_ace g r s"
  by (simp_all add: select_resource_id_def select_user_id_def select_group_id_def
      select_user_ace_def select_group_ace_def)

lemma insert_ace_rowid:
  "insert_ace uo go ro acts s = Inl e \<Longrightarrow> insert_ace uo go ro acts (s\<lparr>rowid := k\<rparr>) = Inl e"
  "insert_ace uo go ro acts s = Inr s' \<Longrightarrow>
     \<exists>t'. insert_ace uo go ro acts (s\<lparr>rowid := k\<rparr>) = Inr t' \<and> same_content t' s'
          \<and> (k = rowid s \<longrightarrow> t' = s')"
  by (auto simp: insert_ace_def same_content_def ace_content_def split: if_splits)

lemma update_ace_rowid:
  "update_ace_actions str i s = Inl e \<Longrightarrow> update_ace_actions str i (s\<lparr>rowid := k\<rparr>) = Inl e"
  "update_ace_actions str i s = Inr s' \<Longrightarrow>
     \<exists>t'. update_ace_actions str i (s\<lparr>rowid := k\<rparr>) = Inr t' \<and> same_content t' s'
          \<and> (k = rowid s \<longrightarrow> t' = s')"
  by (auto simp: update_ace_actions_def same_content_def)

lemma allowUser_tx_rowid:
  "allowUserAccessToResource_tx action resource uid s = Inl e \<Longrightarrow>
     allowUserAccessToResource_tx action resource uid (s\<lparr>rowid := k\<rparr>) = Inl e"
  "allowUserAccessToResource_tx action resource uid s = Inr s' \<Longrightarrow>
     \<exists>t'. allowUserAccessToResource_tx action resource uid (s\<lparr>rowid := k\<rparr>) = Inr t'
          \<and> same_content t' s' \<and> (k = rowid s \<longrightarrow> t' = s')"
  unfolding allowUserAccessToResource_tx_def select_rowid
  by (auto split: sum.splits prod.splits if_splits simp: insert_ace_rowid(1) update_ace_rowid(1)
      intro!: insert_ace_rowid(2) update_ace_rowid(2))

lemma allowGroup_tx_rowid:
  "allowGroupAccessToResource_tx action resource gid s = Inl e \<Longrightarrow>
     allowGroupAccessToResource_tx action resource gid (s\<lparr>rowid := k\<rparr>) = Inl e"
  "allowGroupAccessToResource_tx action resource gid s = Inr s' \<Longrightarrow>
     \<exists>t'. allowGroupAccessToResource_tx action resource gid (s\<lparr>rowid := k\<rparr>) = Inr t'
          \<and> same_content t' s' \<and> (k = rowid s \<longrightarrow> t' = s')"
  unfolding allowGroupAccessToResource_tx_def select_rowid
  by (auto split: sum.splits prod.splits if_splits simp: insert_ace_rowid(1) update_ace_rowid(1)
      intro!: insert_ace_rowid(2) update_ace_rowid(2))

lemma filter_map_same:
  assumes "\<And>b. P (f b) = P b"
  shows "filter P (map f xs) = map f (filter P xs)"
  using assms by (induction xs) auto

lemma insert_ace_counts:
  assumes "insert_ace uo go ro acts s = Inr s'"
  shows "length (user_aces p r s') \<le> max 1 (length (user_aces p r s))"
    and "length (group_aces p r s') \<le> max 1 (length (group_aces p r s))"
proof -
  have u: "uo = Some p \<and> ro = Some r \<longrightarrow> user_aces p r s = []"
    using assms by (auto simp: insert_ace_def user_aces_def filter_empty_conv split: if_splits)
  have g: "go = Some p \<and> ro = Some r \<longrightarrow> group_aces p r s = []"
    using assms by (auto simp: insert_ace_def group_aces_def filter_empty_conv split: if_splits)
  have s': "aces s' = aces s @ [\<lparr>a_id = rowid s, a_user_id = uo, a_group_id = go,
                    a_resource_id = ro, a_actions = acts\<rparr>]"
    using assms by (auto simp: insert_ace_def split: if_splits)
  show "length (user_aces p r s') \<le> max 1 (length (user_aces p r s))"
    using u by (auto simp: user_aces_def s')
  show "length (group_aces p r s') \<le> max 1 (length (group_aces p r s))"
    using g by (auto simp: group_aces_def s')
qed

lemma update_ace_counts:
  assumes "update_ace_actions str i s = Inr s'"
  shows "length (user_aces p r s') = length (user_aces p r s)"
    and "length (group_aces p r s') = length (group_aces p r s)"
proof -
  let ?upd = "\<lambda>a. if a_id a = i then a\<lparr>a_actions := Some str\<rparr> else a"
  have s': "aces s' = map ?upd (aces s)"
    using assms by (auto simp: update_ace_actions_def)
  show "length (user_aces p r s') = length (user_aces p r s)"
    unfolding user_aces_def s' by (subst filter_map_same) simp_all
  show "length (group_aces p r s') = length (group_aces p r s)"
    unfolding group_aces_def s' by (subst filter_map_same) simp_all
qed

lemma allowUser_tx_counts:
  assumes "allowUserAccessToResource_tx action resource uid s = Inr s'"
  shows "length (user_aces p r s') \<le> max 1 (length (user_aces p r s))"
    and "length (group_aces p r s') \<le> max 1 (length (group_aces p r s))"
  using assms unfolding allowUserAccessToResource_tx_def
  by (auto split: sum.splits prod.splits if_splits
      dest: insert_ace_counts [of _ _ _ _ _ _ p r] update_ace_counts [of _ _ _ _ p r])

lemma allowGroup_tx_counts:
  assumes "allowGroupAccessToResource_tx action resource gid s = Inr s'"
  shows "length (user_aces p r s') \<le> max 1 (length (user_aces p r s))"
    and "length (group_aces p r s') \<le> max 1 (length (group_aces p r s))"
  using assms unfolding allowGroupAccessToResource_tx_def
  by (auto split: sum.splits prod.splits if_splits
      dest: insert_ace_counts [of _ _ _ _ _ _ p r] update_ace_counts [of _ _ _ _ p r])

lemma same_content_counts:
  assumes "same_content t s"
  shows "length (user_aces p r t) = length (user_aces p r s)"
    and "length (group_aces p r t) = length (group_aces p r s)"
proof -
  have m: "map ace_content (aces t) = map ace_content (aces s)"
    using assms by (simp add: same_content_def)
  have u: "user_aces p r x = filter ((\<lambda>c. fst c = Some p \<and> fst (snd (snd c)) = Some r) \<circ> ace_content) (aces x)" for x
    by (simp add: user_aces_def ace_content_def comp_def)
  have g: "group_aces p r x = filter ((\<lambda>c. fst (snd c) = Some p \<and> fst (snd (snd c)) = Some r) \<circ> ace_content) (aces x)" for x
    by (simp add: group_aces_def ace_content_def comp_def)
  have l: "length (filter (Q \<circ> ace_content) (aces x)) = length (filter Q (map ace_content (aces x)))" for Q x
    by (simp add: filter_map)
  show "length (user_aces p r t) = length (user_aces p r s)"
    by (simp only: u l m)
  show "length (group_aces p r t) = length (group_aces p r s)"
    by (simp only: g l m)
qed

lemma same_content_refl: "same_content s s"
  by (simp add: same_content_def)

lemma user_aces_rowid: "user_aces p r (s\<lparr>rowid := k\<rparr>) = user_aces p r s"
  and group_aces_rowid: "group_aces p r (s\<lparr>rowid := k\<rparr>) = group_aces p r s"
  by (simp_all add: user_aces_def group_aces_def)

lemma rollback_rowid:
  "\<exists>k. rollback b s a = s\<lparr>rowid := k\<rparr> \<and> (b \<longrightarrow> k = rowid s)"
  by (cases b) (auto simp: rollback_def intro: exI [of _ "rowid s"])

lemma retry_generic:
  assumes inl: "\<And>e k. body s = Inl e \<Longrightarrow> body (s\<lparr>rowid := k\<rparr>) = Inl e"
    and inr: "\<And>s' k. body s = Inr s' \<Longrightarrow>
       \<exists>t'. body (s\<lparr>rowid := k\<rparr>) = Inr t' \<and> same_content t' s' \<and> (k = rowid s \<longrightarrow> t' = s')"
    and cnt: "\<And>s s'. body s = Inr s' \<Longrightarrow>
       length (user_aces p r s') \<le> max 1 (length (user_aces p r s)) \<and>
       length (group_aces p r s') \<le> max 1 (length (group_aces p r s))"
  shows "fst (ExecuteTx_retried b body s) = fst (ExecuteTx body s)"
    and "same_content (snd (ExecuteTx_retried b body s)) (snd (ExecuteTx body s))"
    and "b \<longrightarrow> ExecuteTx_retried b body s = ExecuteTx body s"
    and "length (user_aces p r (snd (ExecuteTx_retried b body s))) \<le> max 1 (length (user_aces p r s))"
    and "length (group_aces p r (snd (ExecuteTx_retried b body s))) \<le> max 1 (length (group_aces p r s))"
proof -
  from rollback_rowid [of b s "after_attempt body s"] obtain k where
    k: "rollback b s (after_attempt body s) = s\<lparr>rowid := k\<rparr>" "b \<longrightarrow> k = rowid s"
    by blast
  have again: "ExecuteTx_retried b body s = ExecuteTx body (s\<lparr>rowid := k\<rparr>)"
    by (simp add: ExecuteTx_retried_def k(1))
  show "fst (ExecuteTx_retried b body s) = fst (ExecuteTx body s)"
    unfolding again using inl [of _ k] inr [of _ k]
    by (cases "body s") (auto simp: ExecuteTx_def)
  show "same_content (snd (ExecuteTx_retried b body s)) (snd (ExecuteTx body s))"
    unfolding again using inl [of _ k] inr [of _ k]
    by (cases "body s") (auto simp: ExecuteTx_def same_content_def)
  show "b \<longrightarrow> ExecuteTx_retried b body s = ExecuteTx body s"
    unfolding again using inl [of _ k] inr [of _ k] k(2)
    by (cases "body s") (auto simp: ExecuteTx_def)
  show "length (user_aces p r (snd (ExecuteTx_retried b body s))) \<le> max 1 (length (user_aces p r s))"
  proof (cases "body s")
    case (Inl e)
    then show ?thesis
      unfolding again using inl [OF Inl, of k] by (simp add: ExecuteTx_def user_aces_rowid)
  next
    case (Inr s1)
    from inr [OF Inr, of k] obtain t' where t: "body (s\<lparr>rowid := k\<rparr>) = Inr t'" by blast
    from cnt [OF t] show ?thesis
      unfolding again using t by (simp add: ExecuteTx_def user_aces_rowid)
  qed
  show "length (group_aces p r (snd (ExecuteTx_retried b body s))) \<le> max 1 (length (group_aces p r s))"
  proof (cases "body s")
    case (Inl e)
    then show ?thesis
      unfolding again using inl [OF Inl, of k] by (simp add: ExecuteTx_def group_aces_rowid)
  next
    case (Inr s1)
    from inr [OF Inr, of k] obtain t' where t: "body (s\<lparr>rowid := k\<rparr>) = Inr t'" by blast
    from cnt [OF t] show ?thesis
      unfolding again using t by (simp add: ExecuteTx_def group_aces_rowid)
  qed
qed

subsection \<open>The ACE upsert engine\<close>

lemma create_then_read:
  assumes r: "select_resource_id resource s = Inr resourceId"
    and u: "select_user_id (Itoa uid) s = Inr userId"
    and n: "user_aces userId resourceId s = []"
  shows "\<exists>s2 a acts.
     for_each [''create'', ''read'']
       (\<lambda>action. ExecuteTx (allowUserAccessToResource_tx action resource uid)) s = (None, s2)
     \<and> user_aces userId resourceId s2 = [a]
     \<and> a_actions a = Some acts \<and> acts = ''create,read''
     \<and> set (split_commas acts) = {''create'', ''read''}
     \<and> length (aces s2) = length (aces s) + 1"
proof -
  let ?new = "\<lparr>a_id = rowid s, a_user_id = Some userId, a_group_id = None,
             a_resource_id = Some resourceId, a_actions = Some ''create''\<rparr>"
  let ?s1 = "s\<lparr>aces := aces s @ [?new], rowid := rowid s + 1\<rparr>"
  let ?P = "\<lambda>a. a_user_id a = Some userId \<and> a_resource_id a = Some resourceId"
  let ?upd = "\<lambda>b. if a_id b = rowid s then b\<lparr>a_actions := Some ''create,read''\<rparr> else b"
  let ?s2 = "?s1\<lparr>aces := map ?upd (aces ?s1)\<rparr>"
  have n': "filter ?P (aces s) = []" using n by (simp add: user_aces_def)
  have t1: "allowUserAccessToResource_tx ''create'' resource uid s = Inr ?s1"
    by (rule allowUser_fresh [OF r u n])
  have r1: "select_resource_id resource ?s1 = Inr resourceId"
    using r by (simp add: select_resource_id_def)
  have u1: "select_user_id (Itoa uid) ?s1 = Inr userId"
    using u by (simp add: select_user_id_def)
  have f1: "find ?P (aces ?s1) = Some ?new"
    using find_append_new [OF n', of ?new] by simp
  have t2: "allowUserAccessToResource_tx ''read'' resource uid ?s1 = Inr ?s2"
    using allowUser_merge [OF r1 u1 f1, of "''create''" "''read''"] by simp
  have run: "for_each [''create'', ''read'']
       (\<lambda>action. ExecuteTx (allowUserAccessToResource_tx action resource uid)) s = (None, ?s2)"
    by (simp add: ExecuteTx_def t1 t2)
  have k: "filter ?P (map ?upd (aces s)) = []"
    using n' by (induction "aces s") (auto simp: filter_empty_conv)
  have rows: "user_aces userId resourceId ?s2 = [?new\<lparr>a_actions := Some ''create,read''\<rparr>]"
    using k by (simp add: user_aces_def)
  show ?thesis
    using run rows by (intro exI [of _ ?s2] exI [of _ "?new\<lparr>a_actions := Some ''create,read''\<rparr>"] exI [of _ "''create,read''"]) simp
qed

text \<open>
  Claim C7. When the ACE row that the upsert finds for a (principal, resource) pair already
  holds an action token, granting that action again succeeds, inserts nothing and rewrites
  the row's action string to the old string, a comma and the token: the tokens of the new
  string are those of the old one followed by the token, so the token now occurs once more
  than before, at least twice. This holds on the user path and on the group path.
\<close>

theorem regrant_appends_duplicate:
  assumes act: "action \<in> set actions"
  shows "(select_resource_id resource s = Inr resourceId \<and>
          select_user_id (Itoa uid) s = Inr userId \<and>
          find (\<lambda>a. a_user_id a = Some userId \<and> a_resource_id a = Some resourceId) (aces s) = Some a \<and>
          a_actions a = Some actionstr \<and> action \<in> set (split_commas actionstr)
          \<longrightarrow> (\<exists>s'. ExecuteTx (allowUserAccessToResource_tx action resource uid) s = (None, s')
                \<and> find (\<lambda>a. a_user_id a = Some userId \<and> a_resource_id a = Some resourceId) (aces s')
                    = Some (a\<lparr>a_actions := Some (actionstr @ '','' @ action)\<rparr>)
                \<and> length (aces s') = length (aces s)
                \<and> split_commas (actionstr @ '','' @ action) = split_commas actionstr @ [action]
                \<and> count_list (split_commas (actionstr @ '','' @ action)) action
                    = count_list (split_commas actionstr) action + 1
                \<and> 2 \<le> count_list (split_commas (actionstr @ '','' @ action)) action))
     \<and> (select_resource_id resource' s = Inr resourceId' \<and>
          select_group_id (Itoa gid) s = Inr groupId \<and>
          find (\<lambda>a. a_group_id a = Some groupId \<and> a_resource_id a = Some resourceId') (aces s) = Some b \<and>
          a_actions b = Some actionstr' \<and> action \<in> set (split_commas actionstr')
          \<longrightarrow> (\<exists>s'. ExecuteTx (allowGroupAccessToResource_tx action resource' gid) s = (None, s')
                \<and> find (\<lambda>a. a_group_id a = Some groupId \<and> a_resource_id a = Some resourceId') (aces s')
                    = Some (b\<lparr>a_actions := Some (actionstr' @ '','' @ action)\<rparr>)
                \<and> length (aces s') = length (aces s)
                \<and> split_commas (actionstr' @ '','' @ action) = split_commas actionstr' @ [action]
                \<and> count_list (split_commas (actionstr' @ '','' @ action)) action
                    = count_list (split_commas actionstr') action + 1
                \<and> 2 \<le> count_list (split_commas (actionstr' @ '','' @ action)) action))"
proof (intro conjI impI; elim conjE)
  assume r: "select_resource_id resource s = Inr resourceId"
    and u: "select_user_id (Itoa uid) s = Inr userId"
    and f: "find (\<lambda>a. a_user_id a = Some userId \<and> a_resource_id a = Some resourceId) (aces s) = Some a"
    and a: "a_actions a = Some actionstr" "action \<in> set (split_commas actionstr)"
  note t = token_appended [OF act a(2)]
  let ?upd = "\<lambda>b. if a_id b = a_id a then b\<lparr>a_actions := Some (actionstr @ '','' @ action)\<rparr> else b"
  have "find (\<lambda>a. a_user_id a = Some userId \<and> a_resource_id a = Some resourceId)
          (map ?upd (aces s)) = Some (?upd a)"
    by (rule find_map_update [OF f]) simp
  then have "ExecuteTx (allowUserAccessToResource_tx action resource uid) s
               = (None, s\<lparr>aces := map ?upd (aces s)\<rparr>)
      \<and> find (\<lambda>a. a_user_id a = Some userId \<and> a_resource_id a = Some resourceId)
           (aces (s\<lparr>aces := map ?upd (aces s)\<rparr>))
          = Some (a\<lparr>a_actions := Some (actionstr @ '','' @ action)\<rparr>)
      \<and> length (aces (s\<lparr>aces := map ?upd (aces s)\<rparr>)) = length (aces s)"
    using allowUser_merge [OF r u f a(1) t(1), of action] by (simp add: ExecuteTx_def)
  with t(2,3,4)
  show "\<exists>s'. ExecuteTx (allowUserAccessToResource_tx action resource uid) s = (None, s')
                \<and> find (\<lambda>a. a_user_id a = Some userId \<and> a_resource_id a = Some resourceId) (aces s')
                    = Some (a\<lparr>a_actions := Some (actionstr @ '','' @ action)\<rparr>)
                \<and> length (aces s') = length (aces s)
                \<and> split_commas (actionstr @ '','' @ action) = split_commas actionstr @ [action]
                \<and> count_list (split_commas (actionstr @ '','' @ action)) action
                    = count_list (split_commas actionstr) action + 1
                \<and> 2 \<le> count_list (split_commas (actionstr @ '','' @ action)) action"
    by blast
next
  assume r: "select_resource_id resource' s = Inr resourceId'"
    and g: "select_group_id (Itoa gid) s = Inr groupId"
    and f: "find (\<lambda>a. a_group_id a = Some groupId \<and> a_resource_id a = Some resourceId') (aces s) = Some b"
    and a: "a_actions b = Some actionstr'" "action \<in> set (split_commas actionstr')"
  note t = token_appended [OF act a(2)]
  let ?upd = "\<lambda>c. if a_id c = a_id b then c\<lparr>a_actions := Some (actionstr' @ '','' @ action)\<rparr> else c"
  have "find (\<lambda>a. a_group_id a = Some groupId \<and> a_resource_id a = Some resourceId')
          (map ?upd (aces s)) = Some (?upd b)"
    by (rule find_map_update [OF f]) simp
  then have "ExecuteTx (allowGroupAccessToResource_tx action resource' gid) s
               = (None, s\<lparr>aces := map ?upd (aces s)\<rparr>)
      \<and> find (\<lambda>a. a_group_id a = Some groupId \<and> a_resource_id a = Some resourceId')
           (aces (s\<lparr>aces := map ?upd (aces s)\<rparr>))
          = Some (b\<lparr>a_actions := Some (actionstr' @ '','' @ action)\<rparr>)
      \<and> length (aces (s\<lparr>aces := map ?upd (aces s)\<rparr>)) = length (aces s)"
    using allowGroup_merge [OF r g f a(1) t(1), of action] by (simp add: ExecuteTx_def)
  with t(2,3,4)
  show "\<exists>s'. ExecuteTx (allowGroupAccessToResource_tx action resource' gid) s = (None, s')
                \<and> find (\<lambda>a. a_group_id a = Some groupId \<and> a_resource_id a = Some resourceId') (aces s')
                    = Some (b\<lparr>a_actions := Some (actionstr' @ '','' @ action)\<rparr>)
                \<and> length (aces s') = length (aces s)
                \<and> split_commas (actionstr' @ '','' @ action) = split_commas actionstr' @ [action]
                \<and> count_list (split_commas (actionstr' @ '','' @ action)) action
                    = count_list (split_commas actionstr') action + 1
                \<and> 2 \<le> count_list (split_commas (actionstr' @ '','' @ action)) action"
    by blast
qed

theorem regrant_appends_duplicate_witness:
  "''read'' \<in> set actions
   \<and> select_resource_id (userResourceName 0) loaded_store = Inr 3
   \<and> select_user_id (Itoa 0) loaded_store = Inr 0
   \<and> ''read'' \<in> set (split_commas ''create,read,update,delete'')
   \<and> select_resource_id (groupResourceName 0) loaded_store = Inr 6
   \<and> select_group_id (Itoa 0) loaded_store = Inr 2
   \<and> (\<exists>s'. ExecuteTx (allowUserAccessToResource_tx ''read'' (userResourceName 0) 0) loaded_store
              = (None, s')
          \<and> find (\<lambda>a. a_user_id a = Some 0 \<and> a_resource_id a = Some 3) (aces s')
              = Some \<lparr>a_id = 4, a_user_id = Some 0, a_group_id = None, a_resource_id = Some 3,
                      a_actions = Some ''create,read,update,delete,read''\<rparr>
          \<and> length (aces s') = length (aces loaded_store)
          \<and> count_list (split_commas ''create,read,update,delete,read'') ''read'' = 2)
   \<and> (\<exists>s'. ExecuteTx (allowGroupAccessToResource_tx ''read'' (groupResourceName 0) 0) loaded_store
              = (None, s')
          \<and> find (\<lambda>a. a_group_id a = Some 2 \<and> a_resource_id a = Some 6) (aces s')
              = Some \<lparr>a_id = 7, a_user_id = None, a_group_id = Some 2, a_resource_id = Some 6,
                      a_actions = Some ''create,read,update,delete,read''\<rparr>
          \<and> length (aces s') = length (aces loaded_store))"
proof -
  let ?a = "\<lparr>a_id = 4, a_user_id = Some 0, a_group_id = None, a_resource_id = Some 3,
             a_actions = Some ''create,read,update,delete''\<rparr>"
  let ?b = "\<lparr>a_id = 7, a_user_id = None, a_group_id = Some 2, a_resource_id = Some 6,
             a_actions = Some ''create,read,update,delete''\<rparr>"
  have act: "''read'' \<in> set actions"
    by (simp add: actions_def)
  have ru: "select_resource_id (userResourceName 0) loaded_store = Inr 3"
    by code_simp
  have u: "select_user_id (Itoa 0) loaded_store = Inr 0"
    by code_simp
  have fu: "find (\<lambda>a. a_user_id a = Some 0 \<and> a_resource_id a = Some 3) (aces loaded_store) = Some ?a"
    by (simp add: loaded_store_tables)
  have tok: "''read'' \<in> set (split_commas ''create,read,update,delete'')"
    by simp
  have rg: "select_resource_id (groupResourceName 0) loaded_store = Inr 6"
    by code_simp
  have g: "select_group_id (Itoa 0) loaded_store = Inr 2"
    by code_simp
  have fg: "find (\<lambda>a. a_group_id a = Some 2 \<and> a_resource_id a = Some 6) (aces loaded_store) = Some ?b"
    by (simp add: loaded_store_tables)
  have c: "count_list (split_commas ''create,read,update,delete'') ''read'' = 1"
    by simp
  have sa: "a_actions ?a = Some ''create,read,update,delete''"
    and sb: "a_actions ?b = Some ''create,read,update,delete''"
    by simp_all
  note t = regrant_appends_duplicate [OF act, of "userResourceName 0" loaded_store 3 0 0 ?a
      "''create,read,update,delete''" "groupResourceName 0" 6 0 2 ?b "''create,read,update,delete''"]
  from t ru u fu sa tok
  have "\<exists>s'. ExecuteTx (allowUserAccessToResource_tx ''read'' (userResourceName 0) 0) loaded_store
              = (None, s')
          \<and> find (\<lambda>a. a_user_id a = Some 0 \<and> a_resource_id a = Some 3) (aces s')
              = Some (?a\<lparr>a_actions := Some (''create,read,update,delete'' @ '','' @ ''read'')\<rparr>)
          \<and> length (aces s') = length (aces loaded_store)
          \<and> count_list (split_commas (''create,read,update,delete'' @ '','' @ ''read'')) ''read''
              = count_list (split_commas ''create,read,update,delete'') ''read'' + 1"
    by blast
  then have user: "\<exists>s'. ExecuteTx (allowUserAccessToResource_tx ''read'' (userResourceName 0) 0) loaded_store
              = (None, s')
          \<and> find (\<lambda>a. a_user_id a = Some 0 \<and> a_resource_id a = Some 3) (aces s')
              = Some \<lparr>a_id = 4, a_user_id = Some 0, a_group_id = None, a_resource_id = Some 3,
                      a_actions = Some ''create,read,update,delete,read''\<rparr>
          \<and> length (aces s') = length (aces loaded_store)
          \<and> count_list (split_commas ''create,read,update,delete,read'') ''read'' = 2"
    by (simp only: c) simp
  from t rg g fg sb tok
  have "\<exists>s'. ExecuteTx (allowGroupAccessToResource_tx ''read'' (groupResourceName 0) 0) loaded_store
              = (None, s')
          \<and> find (\<lambda>a. a_group_id a = Some 2 \<and> a_resource_id a = Some 6) (aces s')
              = Some (?b\<lparr>a_actions := Some (''create,read,update,delete'' @ '','' @ ''read'')\<rparr>)
          \<and> length (aces s') = length (aces loaded_store)"
    by blast
  then have grp: "\<exists>s'. ExecuteTx (allowGroupAccessToResource_tx ''read'' (groupResourceName 0) 0) loaded_store
              = (None, s')
          \<and> find (\<lambda>a. a_group_id a = Some 2 \<and> a_resource_id a = Some 6) (aces s')
              = Some \<lparr>a_id = 7, a_user_id = None, a_group_id = Some 2, a_resource_id = Some 6,
                      a_actions = Some ''create,read,update,delete,read''\<rparr>
          \<and> length (aces s') = length (aces loaded_store)"
    by simp
  show ?thesis
    using act ru u tok rg g user grp by blast
qed

text \<open>
  Claim C3. Let a first attempt of the body of the ACE upsert, of the user path or of the
  group path, run on any store, let its writes be rolled back, and let the body run again.
  The retried transaction returns what a single run returns (the same error, or success)
  and leaves the same rows in every table, up to the store-assigned key of an inserted ACE
  row when \<^verbatim>\<open>unique_rowid()\<close> does not repeat the key that the abandoned attempt drew; when
  the rollback restores the key generator too, the store is the same altogether. No
  (principal, resource) pair has two ACE rows afterwards unless it had as many before.
\<close>

theorem retried_upsert_same_result:
  assumes "body = allowUserAccessToResource_tx action resource uid
         \<or> body = allowGroupAccessToResource_tx action resource gid"
  shows "fst (ExecuteTx_retried keys_restored body s) = fst (ExecuteTx body s)
     \<and> same_content (snd (ExecuteTx_retried keys_restored body s)) (snd (ExecuteTx body s))
     \<and> ExecuteTx_retried True body s = ExecuteTx body s
     \<and> length (user_aces p r (snd (ExecuteTx_retried keys_restored body s)))
         \<le> max 1 (length (user_aces p r s))
     \<and> length (group_aces p r (snd (ExecuteTx_retried keys_restored body s)))
         \<le> max 1 (length (group_aces p r s))"
  using assms
proof
  assume b: "body = allowUserAccessToResource_tx action resource uid"
  show ?thesis
    unfolding b
    using retry_generic [of "allowUserAccessToResource_tx action resource uid" s p r keys_restored,
        OF allowUser_tx_rowid(1) allowUser_tx_rowid(2)]
      retry_generic(3) [of "allowUserAccessToResource_tx action resource uid" s p r True,
        OF allowUser_tx_rowid(1) allowUser_tx_rowid(2)]
      allowUser_tx_counts
    by blast
next
  assume b: "body = allowGroupAccessToResource_tx action resource gid"
  show ?thesis
    unfolding b
    using retry_generic [of "allowGroupAccessToResource_tx action resource gid" s p r keys_restored,
        OF allowGroup_tx_rowid(1) allowGroup_tx_rowid(2)]
      retry_generic(3) [of "allowGroupAccessToResource_tx action resource gid" s p r True,
        OF allowGroup_tx_rowid(1) allowGroup_tx_rowid(2)]
      allowGroup_tx_counts
    by blast
qed

theorem retried_upsert_same_result_witness:
  "fst (ExecuteTx_retried False (allowUserAccessToResource_tx ''create'' (userResourceName 0) 0) small_store)
     = fst (ExecuteTx (allowUserAccessToResource_tx ''create'' (userResourceName 0) 0) small_store)
   \<and> same_content
        (snd (ExecuteTx_retried False (allowUserAccessToResource_tx ''create'' (userResourceName 0) 0) small_store))
        (snd (ExecuteTx (allowUserAccessToResource_tx ''create'' (userResourceName 0) 0) small_store))
   \<and> ExecuteTx_retried True
        (allowUserAccessToResource_tx ''create'' (userResourceName 0) 0) small_store
      = ExecuteTx (allowUserAccessToResource_tx ''create'' (userResourceName 0) 0) small_store
   \<and> length (user_aces 0 1
        (snd (ExecuteTx_retried False (allowUserAccessToResource_tx ''create'' (userResourceName 0) 0) small_store)))
      \<le> max 1 (length (user_aces 0 1 small_store))
   \<and> map a_id (aces (snd (ExecuteTx_retried False
        (allowUserAccessToResource_tx ''create'' (userResourceName 0) 0) small_store))) = [3]
   \<and> map a_id (aces (snd (ExecuteTx
        (allowUserAccessToResource_tx ''create'' (userResourceName 0) 0) small_store))) = [2]"
proof -
  have i: "map a_id (aces (snd (ExecuteTx_retried False
        (allowUserAccessToResource_tx ''create'' (userResourceName 0) 0) small_store))) = [3]"
    by code_simp
  have j: "map a_id (aces (snd (ExecuteTx
        (allowUserAccessToResource_tx ''create'' (userResourceName 0) 0) small_store))) = [2]"
    by code_simp
  show ?thesis
    using i j retried_upsert_same_result
      [OF disjI1 [OF refl], where action = "''create''" and resource = "userResourceName 0"
        and uid = 0 and keys_restored = False and s = small_store and p = 0 and r = 1]
    by blast
qed

subsection \<open>The workload executor\<close>

lemma go_range_3: "go_range 3 = [0, 1, 2]"
  by code_simp

lemma go_range_0: "go_range 0 = []"
  by code_simp

lemma Itoa_012: "Itoa 0 = ''0''" "Itoa 1 = ''1''" "Itoa 2 = ''2''"
  by code_simp+

lemma sane_3: "sane [3, 0, 0, 0, 0]"
  by (simp add: sane_unfold word_sless_eq word_sle_eq)

lemma prepareData_phases:
  "sane counts \<Longrightarrow> prepareData counts s =
     for_each [addUsers (counts ! Users), addGroups (counts ! Groups),
               assignUsersToGroups (counts ! Members) (counts ! Groups) (counts ! Users),
               assignUserPermissions (counts ! UserPermissions) (counts ! Users),
               assignGroupPermissions (counts ! GroupPermissions) (counts ! Groups)]
              (\<lambda>phase. phase) s"
  by (simp add: prepareData_def split: prod.splits option.splits)

lemma prepareData_3:
  assumes "createSchema s0 = Inr s"
  shows "\<exists>s'. prepareData [3, 0, 0, 0, 0] s = (None, s')
     \<and> map u_uid (users s') = [Some ''0'', Some ''1'', Some ''2'']
     \<and> map u_id (users s') = [rowid s, rowid s + 1, rowid s + 2]
     \<and> groups s' = [] \<and> resources s' = [] \<and> user_groups s' = [] \<and> aces s' = []"
proof -
  have e: "users s = []" "groups s = []" "resources s = []" "user_groups s = []" "aces s = []"
    using assms by (auto simp: createSchema_def)
  show ?thesis
    using e
    by (simp add: prepareData_def sane_3 Users_def Groups_def Members_def UserPermissions_def
        GroupPermissions_def addUsers_def addGroups_def assignUsersToGroups_def
        assignUserPermissions_def assignGroupPermissions_def go_range_3 go_range_0 addUser_def
        ExecuteTx_def addUser_tx_def insert_user_def Itoa_012)
qed

text \<open>
  Claim C6. On a freshly created schema, the load of the tuple \<open>{users: 3, groups: 0,
  members: 0, user-permissions: 0, group-permissions: 0}\<close> succeeds and leaves exactly three
  user rows, with business keys "0", "1", "2" in the order of their insertion (their
  surrogate keys are the next three of the store), and no row in any other table. For every
  sane tuple the load is its five phases in the order users, groups, memberships, user
  permissions, group permissions: each phase starts on the store the one before it left,
  and the first error ends the load.
\<close>

theorem load_three_users:
  "(createSchema s0 = Inr s \<longrightarrow>
      (\<exists>s'. prepareData [3, 0, 0, 0, 0] s = (None, s')
         \<and> map u_uid (users s') = [Some ''0'', Some ''1'', Some ''2'']
         \<and> map u_id (users s') = [rowid s, rowid s + 1, rowid s + 2]
         \<and> groups s' = [] \<and> resources s' = [] \<and> user_groups s' = [] \<and> aces s' = []))
   \<and> (sane counts \<longrightarrow>
        prepareData counts t =
          for_each [addUsers (counts ! Users), addGroups (counts ! Groups),
                    assignUsersToGroups (counts ! Members) (counts ! Groups) (counts ! Users),
                    assignUserPermissions (counts ! UserPermissions) (counts ! Users),
                    assignGroupPermissions (counts ! GroupPermissions) (counts ! Groups)]
                   (\<lambda>phase. phase) t)"
  using prepareData_3 prepareData_phases by blast

theorem load_three_users_witness:
  "createSchema fresh_store = Inr fresh_store
   \<and> sane [3, 0, 0, 0, 0]
   \<and> (\<exists>s'. prepareData [3, 0, 0, 0, 0] fresh_store = (None, s')
         \<and> map u_uid (users s') = [Some ''0'', Some ''1'', Some ''2'']
         \<and> map u_id (users s') = [0, 1, 2]
         \<and> groups s' = [] \<and> resources s' = [] \<and> user_groups s' = [] \<and> aces s' = [])
   \<and> prepareData [3, 0, 0, 0, 0] fresh_store =
        for_each [addUsers 3, addGroups 0, assignUsersToGroups 0 0 3,
                  assignUserPermissions 0 3, assignGroupPermissions 0 0]
                 (\<lambda>phase. phase) fresh_store"
proof -
  have c: "createSchema fresh_store = Inr fresh_store"
    by (simp add: createSchema_def fresh_store_def)
  have r: "rowid fresh_store = 0"
    by (simp add: fresh_store_def)
  note t = load_three_users [of fresh_store fresh_store "[3, 0, 0, 0, 0]" fresh_store]
  have a: "\<exists>s'. prepareData [3, 0, 0, 0, 0] fresh_store = (None, s')
         \<and> map u_uid (users s') = [Some ''0'', Some ''1'', Some ''2'']
         \<and> map u_id (users s') = [0, 1, 2]
         \<and> groups s' = [] \<and> resources s' = [] \<and> user_groups s' = [] \<and> aces s' = []"
    using t c by (simp add: r)
  have b: "prepareData [3, 0, 0, 0, 0] fresh_store =
        for_each [addUsers 3, addGroups 0, assignUsersToGroups 0 0 3,
                  assignUserPermissions 0 3, assignGroupPermissions 0 0]
                 (\<lambda>phase. phase) fresh_store"
    using t sane_3
    by (simp add: Users_def Groups_def Members_def UserPermissions_def GroupPermissions_def)
  show ?thesis
    using c sane_3 a b by blast
qed

subsection \<open>Loops and transactions\<close>

lemma ExecuteTx_cases:
  assumes "ExecuteTx body s = (e, s')"
  obtains (failed) err where "body s = Inl err" "e = Some err" "s' = s"
    | (committed) "body s = Inr s'" "e = None"
  using assms by (auto simp: ExecuteTx_def split: sum.splits)

lemma for_each_invariant:
  assumes "for_each xs f s = (e, s')" and "P s"
    and "\<And>x t e' t'. x \<in> set xs \<Longrightarrow> P t \<Longrightarrow> f x t = (e', t') \<Longrightarrow> P t'"
  shows "P s'"
  using assms
proof (induction xs arbitrary: s)
  case Nil
  then show ?case by simp
next
  case (Cons x xs)
  obtain e1 s1 where f: "f x s = (e1, s1)" by (cases "f x s")
  have p1: "P s1" using Cons.prems(2,3) f by auto
  show ?case
  proof (cases e1)
    case None
    then have "for_each xs f s1 = (e, s')" using Cons.prems(1) f by simp
    then show ?thesis using Cons.IH [of s1] p1 Cons.prems(3) by auto
  next
    case (Some err)
    then have "s' = s1" using Cons.prems(1) f by simp
    then show ?thesis using p1 by simp
  qed
qed

lemma for_each_error:
  assumes "for_each xs f s = (Some err, s')"
  shows "\<exists>x \<in> set xs. \<exists>t t'. f x t = (Some err, t')"
  using assms
proof (induction xs arbitrary: s)
  case Nil
  then show ?case by simp
next
  case (Cons x xs)
  obtain e1 s1 where f: "f x s = (e1, s1)" by (cases "f x s")
  show ?case
  proof (cases e1)
    case None
    then have "for_each xs f s1 = (Some err, s')" using Cons.prems f by simp
    from Cons.IH [OF this] show ?thesis by auto
  next
    case (Some err')
    then have "err' = err" using Cons.prems f by simp
    then show ?thesis using f Some by auto
  qed
qed

subsection \<open>What each transaction does to the tables\<close>

lemma createSchema_effect:
  assumes "createSchema s0 = Inr s"
  shows "users s = []" "groups s = []" "resources s = []" "user_groups s = []" "aces s = []"
    "rowid s = rowid s0"
  using assms by (auto simp: createSchema_def)

lemma addUser_tx_effect:
  assumes "addUser_tx n s = Inr s'"
  shows "\<exists>u. users s' = users s @ [u] \<and> u_id u = rowid s \<and> u_uid u = Some (Itoa n)"
    "\<forall>u \<in> set (users s). u_uid u \<noteq> Some (Itoa n)"
    "groups s' = groups s" "resources s' = resources s" "user_groups s' = user_groups s"
    "aces s' = aces s" "rowid s' = rowid s + 1"
  using assms by (auto simp: addUser_tx_def insert_user_def Let_def split: if_splits)

lemma addGroup_tx_effect:
  assumes "addGroup_tx n s = Inr s'"
  shows "\<exists>g. groups s' = groups s @ [g] \<and> g_id g = rowid s \<and> g_gid g = Some (Itoa n)"
    "\<forall>g \<in> set (groups s). g_gid g \<noteq> Some (Itoa n)"
    "users s' = users s" "resources s' = resources s" "user_groups s' = user_groups s"
    "aces s' = aces s" "rowid s' = rowid s + 1"
  using assms by (auto simp: addGroup_tx_def insert_group_def Let_def split: if_splits)

lemma addResource_tx_effect:
  assumes "addResource_tx name s = Inr s'"
  shows "\<exists>r. resources s' = resources s @ [r] \<and> r_id r = rowid s \<and> r_rid r = Some name"
    "\<forall>r \<in> set (resources s). r_rid r \<noteq> Some name"
    "users s' = users s" "groups s' = groups s" "user_groups s' = user_groups s"
    "aces s' = aces s" "rowid s' = rowid s + 1"
  using assms by (auto simp: addResource_tx_def insert_resource_def Let_def split: if_splits)

lemma select_user_id_mem:
  "select_user_id p s = Inr i \<Longrightarrow> \<exists>u \<in> set (users s). u_id u = i \<and> like_null (u_uid u) p"
  by (auto simp: select_user_id_def find_Some_iff split: option.splits)

lemma select_group_id_mem:
  "select_group_id p s = Inr i \<Longrightarrow> \<exists>g \<in> set (groups s). g_id g = i \<and> like_null (g_gid g) p"
  by (auto simp: select_group_id_def find_Some_iff split: option.splits)

lemma select_resource_id_mem:
  "select_resource_id p s = Inr i \<Longrightarrow> \<exists>r \<in> set (resources s). r_id r = i \<and> like_null (r_rid r) p"
  by (auto simp: select_resource_id_def find_Some_iff split: option.splits)

lemma addUserToGroup_tx_effect:
  assumes "addUserToGroup_tx g n s = Inr s'"
  shows "\<exists>m. user_groups s' = user_groups s @ [m] \<and> ug_user_id m \<in> u_id ` set (users s)
             \<and> ug_group_id m \<in> g_id ` set (groups s)"
    "users s' = users s" "groups s' = groups s" "resources s' = resources s"
    "aces s' = aces s" "rowid s' = rowid s"
  using assms
  by (auto simp: addUserToGroup_tx_def insert_user_group_def
      split: sum.splits if_splits dest!: select_user_id_mem select_group_id_mem)

text \<open>
  The upsert either rewrites the action strings of existing rows or appends one row, whose
  resource exists and whose single principal is the one of its path.
\<close>

lemma insert_ace_effect:
  assumes "insert_ace uo go ro acts s = Inr s'"
  shows "aces s' = aces s @ [\<lparr>a_id = rowid s, a_user_id = uo, a_group_id = go,
                    a_resource_id = ro, a_actions = acts\<rparr>]"
    "users s' = users s" "groups s' = groups s" "resources s' = resources s"
    "user_groups s' = user_groups s" "rowid s' = rowid s + 1"
  using assms by (auto simp: insert_ace_def split: if_splits)

lemma update_ace_effect:
  assumes "update_ace_actions str i s = Inr s'"
  shows "aces s' = map (\<lambda>a. if a_id a = i then a\<lparr>a_actions := Some str\<rparr> else a) (aces s)"
    "users s' = users s" "groups s' = groups s" "resources s' = resources s"
    "user_groups s' = user_groups s" "rowid s' = rowid s"
  using assms by (auto simp: update_ace_actions_def)

lemma allowUser_tx_effect:
  assumes "allowUserAccessToResource_tx action resource uid s = Inr s'"
  shows "users s' = users s" "groups s' = groups s" "resources s' = resources s"
    "user_groups s' = user_groups s" "rowid s \<le> rowid s'"
    "(\<exists>str i. aces s' = map (\<lambda>a. if a_id a = i then a\<lparr>a_actions := Some str\<rparr> else a) (aces s))
     \<or> (\<exists>a. aces s' = aces s @ [a] \<and> a_user_id a \<noteq> None \<and> a_group_id a = None
            \<and> a_resource_id a \<in> Some ` r_id ` set (resources s) \<and> a_actions a = Some action)"
proof -
  from assms obtain resourceId userId where
    r: "select_resource_id resource s = Inr resourceId"
    and c: "(\<exists>str i. update_ace_actions str i s = Inr s')
          \<or> insert_ace (Some userId) None (Some resourceId) (Some action) s = Inr s'"
    unfolding allowUserAccessToResource_tx_def
    by (auto split: sum.splits prod.splits if_splits)
  from select_resource_id_mem [OF r] have m: "Some resourceId \<in> Some ` r_id ` set (resources s)"
    by auto
  from c show "users s' = users s" "groups s' = groups s" "resources s' = resources s"
    "user_groups s' = user_groups s" "rowid s \<le> rowid s'"
    by (auto dest: update_ace_effect insert_ace_effect)
  from c show "(\<exists>str i. aces s' = map (\<lambda>a. if a_id a = i then a\<lparr>a_actions := Some str\<rparr> else a) (aces s))
     \<or> (\<exists>a. aces s' = aces s @ [a] \<and> a_user_id a \<noteq> None \<and> a_group_id a = None
            \<and> a_resource_id a \<in> Some ` r_id ` set (resources s) \<and> a_actions a = Some action)"
  proof
    assume "\<exists>str i. update_ace_actions str i s = Inr s'"
    then show ?thesis by (auto dest: update_ace_effect(1))
  next
    assume "insert_ace (Some userId) None (Some resourceId) (Some action) s = Inr s'"
    from insert_ace_effect(1) [OF this] m show ?thesis by simp
  qed
qed

lemma allowGroup_tx_effect:
  assumes "allowGroupAccessToResource_tx action resource gid s = Inr s'"
  shows "users s' = users s" "groups s' = groups s" "resources s' = resources s"
    "user_groups s' = user_groups s" "rowid s \<le> rowid s'"
    "(\<exists>str i. aces s' = map (\<lambda>a. if a_id a = i then a\<lparr>a_actions := Some str\<rparr> else a) (aces s))
     \<or> (\<exists>a. aces s' = aces s @ [a] \<and> a_user_id a = None \<and> a_group_id a \<noteq> None
            \<and> a_resource_id a \<in> Some ` r_id ` set (resources s) \<and> a_actions a = Some action)"
proof -
  from assms obtain resourceId groupId where
    r: "select_resource_id resource s = Inr resourceId"
    and c: "(\<exists>str i. update_ace_actions str i s = Inr s')
          \<or> insert_ace None (Some groupId) (Some resourceId) (Some action) s = Inr s'"
    unfolding allowGroupAccessToResource_tx_def
    by (auto split: sum.splits prod.splits if_splits)
  from select_resource_id_mem [OF r] have m: "Some resourceId \<in> Some ` r_id ` set (resources s)"
    by auto
  from c show "users s' = users s" "groups s' = groups s" "resources s' = resources s"
    "user_groups s' = user_groups s" "rowid s \<le> rowid s'"
    by (auto dest: update_ace_effect insert_ace_effect)
  from c show "(\<exists>str i. aces s' = map (\<lambda>a. if a_id a = i then a\<lparr>a_actions := Some str\<rparr> else a) (aces s))
     \<or> (\<exists>a. aces s' = aces s @ [a] \<and> a_user_id a = None \<and> a_group_id a \<noteq> None
            \<and> a_resource_id a \<in> Some ` r_id ` set (resources s) \<and> a_actions a = Some action)"
  proof
    assume "\<exists>str i. update_ace_actions str i s = Inr s'"
    then show ?thesis by (auto dest: update_ace_effect(1))
  next
    assume "insert_ace None (Some groupId) (Some resourceId) (Some action) s = Inr s'"
    from insert_ace_effect(1) [OF this] m show ?thesis by simp
  qed
qed

lemma removeUser_tx_effect:
  assumes "removeUser_tx uid s = Inr s'"
  shows "\<exists>u \<in> set (users s). like_null (u_uid u) uid \<and>
           find (\<lambda>u. like_null (u_uid u) uid) (users s) = Some u \<and>
           users s' = filter (\<lambda>v. u_id v \<noteq> u_id u) (users s) \<and>
           user_groups s' = filter (\<lambda>m. ug_user_id m \<noteq> u_id u) (user_groups s) \<and>
           aces s' = filter (\<lambda>a. a_user_id a \<noteq> Some (u_id u)) (aces s)"
    "groups s' = groups s" "resources s' = resources s" "rowid s' = rowid s"
  using assms
  by (auto simp: removeUser_tx_def select_user_id_def find_Some_iff Let_def split: sum.splits option.splits)

lemma removeGroup_tx_effect:
  assumes "removeGroup_tx gid s = Inr s'"
  shows "\<exists>g \<in> set (groups s). like_null (g_gid g) gid \<and>
           find (\<lambda>g. like_null (g_gid g) gid) (groups s) = Some g \<and>
           groups s' = filter (\<lambda>v. g_id v \<noteq> g_id g) (groups s) \<and>
           user_groups s' = filter (\<lambda>m. ug_group_id m \<noteq> g_id g) (user_groups s) \<and>
           aces s' = filter (\<lambda>a. a_group_id a \<noteq> Some (g_id g)) (aces s)"
    "users s' = users s" "resources s' = resources s" "rowid s' = rowid s"
  using assms
  by (auto simp: removeGroup_tx_def select_group_id_def find_Some_iff Let_def split: sum.splits option.splits)

lemma removeResource_tx_effect:
  assumes "removeResource_tx rid s = Inr s'"
  shows "\<exists>r \<in> set (resources s). like_null (r_rid r) rid \<and>
           find (\<lambda>r. like_null (r_rid r) rid) (resources s) = Some r \<and>
           resources s' = filter (\<lambda>v. r_id v \<noteq> r_id r) (resources s) \<and>
           aces s' = filter (\<lambda>a. a_resource_id a \<noteq> Some (r_id r)) (aces s)"
    "users s' = users s" "groups s' = groups s" "user_groups s' = user_groups s" "rowid s' = rowid s"
  using assms
  by (auto simp: removeResource_tx_def select_resource_id_def find_Some_iff Let_def split: sum.splits option.splits)

subsection \<open>The load and the teardown stay within the reachable stores\<close>

lemma ExecuteTx_reachable:
  assumes "ExecuteTx body s = (e, s')" and "reachable s"
    and "\<And>t. body s = Inr t \<Longrightarrow> reachable t"
  shows "reachable s'"
  using assms by (auto elim!: ExecuteTx_cases)

lemma addUsers_reachable:
  assumes "addUsers n s = (e, s')" and "reachable s"
  shows "reachable s'"
  using assms(1) unfolding addUsers_def
proof (rule for_each_invariant [where P = reachable])
  show "reachable s" by fact
next
  fix x t e' t'
  assume t: "reachable t" and f: "addUser x t = (e', t')"
  show "reachable t'"
    using f [unfolded addUser_def] t by (rule ExecuteTx_reachable) (rule r_addUser [OF t])
qed

lemma addGroups_reachable:
  assumes "addGroups n s = (e, s')" and "reachable s"
  shows "reachable s'"
  using assms(1) unfolding addGroups_def
proof (rule for_each_invariant [where P = reachable])
  show "reachable s" by fact
next
  fix x t e' t'
  assume t: "reachable t" and f: "addGroup x t = (e', t')"
  show "reachable t'"
    using f [unfolded addGroup_def] t by (rule ExecuteTx_reachable) (rule r_addGroup [OF t])
qed

lemma addUserToGroup_reachable:
  assumes "addUserToGroup g u s = (e, s')" and "reachable s"
  shows "reachable s'"
  using assms unfolding addUserToGroup_def
  by (rule ExecuteTx_reachable) (rule r_addUserToGroup [OF assms(2)])

lemma assignUsersToGroups_reachable:
  assumes "assignUsersToGroups m g u s = (e, s')" and "reachable s"
  shows "reachable s'"
proof -
  let ?body = "\<lambda>grp (ii :: go_int) (user, s).
                   case addUserToGroup grp user s of
                     (Some err, s') \<Rightarrow> (Some err, (user, s'))
                   | (None, s') \<Rightarrow>
                       (let user = user + 1
                        in if u = 0 then (Some PanicDivideByZero, (user, s'))
                           else (None, (go_rem user u, s')))"
  let ?outer = "for_each (go_range g) (\<lambda>grp. for_each (go_range m) (?body grp)) (0, s)"
  obtain e1 u1 s1 where o: "?outer = (e1, (u1, s1))"
    by (cases ?outer) auto
  have s1: "s1 = s'"
    using assms(1) o unfolding assignUsersToGroups_def by simp
  have inner: "reachable (snd t')" if "reachable (snd t)" and "?body grp ii t = (e', t')"
    for grp ii t e' t'
  proof -
    obtain user st where t: "t = (user, st)" by (cases t)
    obtain e2 st2 where a: "addUserToGroup grp user st = (e2, st2)"
      by (cases "addUserToGroup grp user st")
    have "reachable st2"
      using addUserToGroup_reachable [OF a] that(1) t by simp
    moreover have "snd t' = st2"
      using that(2) t a by (cases e2) (auto simp: Let_def split: if_splits)
    ultimately show ?thesis by simp
  qed
  have "reachable (snd (u1, s1))"
  proof (rule for_each_invariant [where P = "\<lambda>t. reachable (snd t)", OF o])
    show "reachable (snd (0 :: go_int, s))" using assms(2) by simp
  next
    fix grp t e' t'
    assume p: "reachable (snd t)"
      and f: "for_each (go_range m) (?body grp) t = (e', t')"
    show "reachable (snd t')"
      by (rule for_each_invariant [where P = "\<lambda>t. reachable (snd t)", OF f p]) (rule inner)
  qed
  then show ?thesis using s1 by simp
qed

lemma addResource_reachable:
  assumes "addResource name s = (e, s')" and "reachable s"
    and "name = userResourceName p \<or> name = groupResourceName p"
  shows "reachable s'"
  using assms(1,2) unfolding addResource_def
proof (rule ExecuteTx_reachable)
  fix t assume "addResource_tx name s = Inr t"
  then show "reachable t"
    using assms(2,3) r_addUserResource r_addGroupResource by blast
qed

lemma allowUserAccessToResource_reachable:
  assumes "allowUserAccessToResource (userResourceName p) uid s = (e, s')" and "reachable s"
  shows "reachable s'"
  using assms(1) unfolding allowUserAccessToResource_def
proof (rule for_each_invariant [where P = reachable])
  show "reachable s" by fact
next
  fix x t e' t'
  assume x: "x \<in> set actions" and t: "reachable t"
    and f: "ExecuteTx (allowUserAccessToResource_tx x (userResourceName p) uid) t = (e', t')"
  show "reachable t'"
    using f t by (rule ExecuteTx_reachable) (rule r_allowUser [OF t x])
qed

lemma allowGroupAccessToResource_reachable:
  assumes "allowGroupAccessToResource (groupResourceName p) gid s = (e, s')" and "reachable s"
  shows "reachable s'"
  using assms(1) unfolding allowGroupAccessToResource_def
proof (rule for_each_invariant [where P = reachable])
  show "reachable s" by fact
next
  fix x t e' t'
  assume x: "x \<in> set actions" and t: "reachable t"
    and f: "ExecuteTx (allowGroupAccessToResource_tx x (groupResourceName p) gid) t = (e', t')"
  show "reachable t'"
    using f t by (rule ExecuteTx_reachable) (rule r_allowGroup [OF t x])
qed

lemma assignUserPermissions_reachable:
  assumes "assignUserPermissions n u s = (e, s')" and "reachable s"
  shows "reachable s'"
  using assms(1) unfolding assignUserPermissions_def
proof (rule for_each_invariant [where P = reachable])
  show "reachable s" by fact
next
  fix p t e' t'
  assume t: "reachable t"
    and f: "(let resource = userResourceName p
             in case addResource resource t of
                  (Some err, s') \<Rightarrow> (Some err, s')
                | (None, s') \<Rightarrow>
                    for_each (go_range u) (\<lambda>user. allowUserAccessToResource resource user) s')
            = (e', t')"
  obtain e1 t1 where a: "addResource (userResourceName p) t = (e1, t1)"
    by (cases "addResource (userResourceName p) t")
  have r1: "reachable t1"
    using addResource_reachable [OF a t] by blast
  show "reachable t'"
  proof (cases e1)
    case (Some err)
    then show ?thesis using f a r1 by simp
  next
    case None
    then have l: "for_each (go_range u)
        (\<lambda>user. allowUserAccessToResource (userResourceName p) user) t1 = (e', t')"
      using f a by simp
    show ?thesis
      by (rule for_each_invariant [where P = reachable, OF l r1])
        (rule allowUserAccessToResource_reachable)
  qed
qed

lemma assignGroupPermissions_reachable:
  assumes "assignGroupPermissions n g s = (e, s')" and "reachable s"
  shows "reachable s'"
  using assms(1) unfolding assignGroupPermissions_def
proof (rule for_each_invariant [where P = reachable])
  show "reachable s" by fact
next
  fix p t e' t'
  assume t: "reachable t"
    and f: "(let resource = groupResourceName p
             in case addResource resource t of
                  (Some err, s') \<Rightarrow> (Some err, s')
                | (None, s') \<Rightarrow>
                    for_each (go_range g) (\<lambda>grp. allowGroupAccessToResource resource grp) s')
            = (e', t')"
  obtain e1 t1 where a: "addResource (groupResourceName p) t = (e1, t1)"
    by (cases "addResource (groupResourceName p) t")
  have r1: "reachable t1"
    using addResource_reachable [OF a t] by blast
  show "reachable t'"
  proof (cases e1)
    case (Some err)
    then show ?thesis using f a r1 by simp
  next
    case None
    then have l: "for_each (go_range g)
        (\<lambda>grp. allowGroupAccessToResource (groupResourceName p) grp) t1 = (e', t')"
      using f a by simp
    show ?thesis
      by (rule for_each_invariant [where P = reachable, OF l r1])
        (rule allowGroupAccessToResource_reachable)
  qed
qed

lemma prepareData_reachable:
  assumes "prepareData counts s = (e, s')" and "reachable s"
  shows "reachable s'"
proof (cases "sane counts")
  case False
  then show ?thesis using assms by (simp add: prepareData_def)
next
  case True
  have "for_each [addUsers (counts ! Users), addGroups (counts ! Groups),
               assignUsersToGroups (counts ! Members) (counts ! Groups) (counts ! Users),
               assignUserPermissions (counts ! UserPermissions) (counts ! Users),
               assignGroupPermissions (counts ! GroupPermissions) (counts ! Groups)]
              (\<lambda>phase. phase) s = (e, s')"
    using assms(1) prepareData_phases [OF True] by simp
  then show ?thesis
  proof (rule for_each_invariant [where P = reachable])
    show "reachable s" by fact
  next
    fix x t e' t'
    assume "x \<in> set [addUsers (counts ! Users), addGroups (counts ! Groups),
               assignUsersToGroups (counts ! Members) (counts ! Groups) (counts ! Users),
               assignUserPermissions (counts ! UserPermissions) (counts ! Users),
               assignGroupPermissions (counts ! GroupPermissions) (counts ! Groups)]"
      and "reachable t" and "x t = (e', t')"
    then show "reachable t'"
      using addUsers_reachable addGroups_reachable assignUsersToGroups_reachable
        assignUserPermissions_reachable assignGroupPermissions_reachable
      by auto
  qed
qed

lemma reachable_fresh_store: "reachable fresh_store"
  by (rule r_createSchema [of fresh_store]) (simp add: createSchema_def fresh_store_def)

lemma reachable_loaded_store: "reachable loaded_store"
  unfolding loaded_store_def
  by (rule prepareData_reachable [OF _ reachable_fresh_store, of _ "fst (prepareData [2, 1, 1, 1, 1] fresh_store)"])
    simp

subsection \<open>Exactly one principal\<close>

lemma one_principal_update: "one_principal (a\<lparr>a_actions := x\<rparr>) = one_principal a"
  by (simp add: one_principal_def)

lemma upsert_keeps_one_principal:
  assumes "\<forall>a \<in> set (aces s). one_principal a"
    and "(\<exists>str i. aces s' = map (\<lambda>a. if a_id a = i then a\<lparr>a_actions := Some str\<rparr> else a) (aces s))
     \<or> (\<exists>a. aces s' = aces s @ [a] \<and> one_principal a)"
  shows "\<forall>a \<in> set (aces s'). one_principal a"
  using assms by (auto simp: one_principal_update)

lemma reachable_one_principal:
  "reachable s \<Longrightarrow> \<forall>a \<in> set (aces s). one_principal a"
proof (induction rule: reachable.induct)
  case (r_createSchema s0 s)
  then show ?case by (simp add: createSchema_effect)
next
  case (r_addUser s userid s')
  then show ?case by (simp add: addUser_tx_effect)
next
  case (r_addGroup s groupid s')
  then show ?case by (simp add: addGroup_tx_effect)
next
  case (r_addUserToGroup s grp user s')
  then show ?case by (simp add: addUserToGroup_tx_effect)
next
  case (r_addUserResource s permission s')
  then show ?case by (simp add: addResource_tx_effect)
next
  case (r_addGroupResource s permission s')
  then show ?case by (simp add: addResource_tx_effect)
next
  case (r_allowUser s action permission uid s')
  show ?case
    using r_allowUser.IH allowUser_tx_effect(6) [OF r_allowUser.hyps(3)]
    by (intro upsert_keeps_one_principal [of s s']) (auto simp: one_principal_def)
next
  case (r_allowGroup s action permission gid s')
  show ?case
    using r_allowGroup.IH allowGroup_tx_effect(6) [OF r_allowGroup.hyps(3)]
    by (intro upsert_keeps_one_principal [of s s']) (auto simp: one_principal_def)
next
  case (r_removeUser s uid s')
  then show ?case using removeUser_tx_effect(1) [OF r_removeUser.hyps(2)] by auto
next
  case (r_removeGroup s gid s')
  then show ?case using removeGroup_tx_effect(1) [OF r_removeGroup.hyps(2)] by auto
next
  case (r_removeResource s rid s')
  then show ?case using removeResource_tx_effect(1) [OF r_removeResource.hyps(2)] by auto
qed

lemma rewrite_keeps_principals:
  assumes "aces s' = map (\<lambda>a. if a_id a = i then a\<lparr>a_actions := Some str\<rparr> else a) (aces s)"
  shows "map a_user_id (aces s') = map a_user_id (aces s)"
    and "map a_group_id (aces s') = map a_group_id (aces s)"
  by (simp_all add: assms comp_def if_distrib cong: if_cong)

text \<open>
  Claim C8. In every store the program can reach, every ACE row has exactly one principal:
  its user key or its group key is \<^verbatim>\<open>NULL\<close>, never both and never neither. A
  committed upsert of the user path leaves the principals of all rows as they were or
  appends one row with the user key set and the group key \<^verbatim>\<open>NULL\<close>; a committed upsert of
  the group path leaves them as they were or appends one row with the group key set and the
  user key \<^verbatim>\<open>NULL\<close>.
\<close>

theorem ace_has_one_principal:
  "(reachable s \<longrightarrow> (\<forall>a \<in> set (aces s). one_principal a))
   \<and> (allowUserAccessToResource_tx action resource uid t = Inr t' \<longrightarrow>
        (map a_user_id (aces t') = map a_user_id (aces t) \<and>
         map a_group_id (aces t') = map a_group_id (aces t))
        \<or> (\<exists>a. aces t' = aces t @ [a] \<and> a_user_id a \<noteq> None \<and> a_group_id a = None))
   \<and> (allowGroupAccessToResource_tx action' resource' gid v = Inr v' \<longrightarrow>
        (map a_user_id (aces v') = map a_user_id (aces v) \<and>
         map a_group_id (aces v') = map a_group_id (aces v))
        \<or> (\<exists>a. aces v' = aces v @ [a] \<and> a_user_id a = None \<and> a_group_id a \<noteq> None))"
proof (intro conjI impI)
  assume "reachable s"
  then show "\<forall>a \<in> set (aces s). one_principal a" by (rule reachable_one_principal)
next
  assume "allowUserAccessToResource_tx action resource uid t = Inr t'"
  from allowUser_tx_effect(6) [OF this]
  show "(map a_user_id (aces t') = map a_user_id (aces t) \<and>
         map a_group_id (aces t') = map a_group_id (aces t))
        \<or> (\<exists>a. aces t' = aces t @ [a] \<and> a_user_id a \<noteq> None \<and> a_group_id a = None)"
    using rewrite_keeps_principals by blast
next
  assume "allowGroupAccessToResource_tx action' resource' gid v = Inr v'"
  from allowGroup_tx_effect(6) [OF this]
  show "(map a_user_id (aces v') = map a_user_id (aces v) \<and>
         map a_group_id (aces v') = map a_group_id (aces v))
        \<or> (\<exists>a. aces v' = aces v @ [a] \<and> a_user_id a = None \<and> a_group_id a \<noteq> None)"
    using rewrite_keeps_principals by blast
qed

theorem ace_has_one_principal_witness:
  "reachable loaded_store
   \<and> list_all one_principal (aces loaded_store)
   \<and> length (aces loaded_store) = 3
   \<and> allowUserAccessToResource_tx ''create'' (userResourceName 0) 0 small_store
       = Inr (small_store\<lparr>aces := [\<lparr>a_id = 2, a_user_id = Some 0, a_group_id = None,
                a_resource_id = Some 1, a_actions = Some ''create''\<rparr>], rowid := 3\<rparr>)
   \<and> (\<exists>a. aces (small_store\<lparr>aces := [\<lparr>a_id = 2, a_user_id = Some 0, a_group_id = None,
                a_resource_id = Some 1, a_actions = Some ''create''\<rparr>], rowid := 3\<rparr>)
            = aces small_store @ [a] \<and> a_user_id a \<noteq> None \<and> a_group_id a = None)
   \<and> allowGroupAccessToResource_tx ''create'' (groupResourceName 0) 0 small_group_store
       = Inr (small_group_store\<lparr>aces := [\<lparr>a_id = 2, a_user_id = None, a_group_id = Some 0,
                a_resource_id = Some 1, a_actions = Some ''create''\<rparr>], rowid := 3\<rparr>)
   \<and> (\<exists>a. aces (small_group_store\<lparr>aces := [\<lparr>a_id = 2, a_user_id = None, a_group_id = Some 0,
                a_resource_id = Some 1, a_actions = Some ''create''\<rparr>], rowid := 3\<rparr>)
            = aces small_group_store @ [a] \<and> a_user_id a = None \<and> a_group_id a \<noteq> None)"
proof -
  let ?t' = "small_store\<lparr>aces := [\<lparr>a_id = 2, a_user_id = Some 0, a_group_id = None,
                a_resource_id = Some 1, a_actions = Some ''create''\<rparr>], rowid := 3\<rparr>"
  let ?v' = "small_group_store\<lparr>aces := [\<lparr>a_id = 2, a_user_id = None, a_group_id = Some 0,
                a_resource_id = Some 1, a_actions = Some ''create''\<rparr>], rowid := 3\<rparr>"
  have u: "allowUserAccessToResource_tx ''create'' (userResourceName 0) 0 small_store = Inr ?t'"
    by code_simp
  have g: "allowGroupAccessToResource_tx ''create'' (groupResourceName 0) 0 small_group_store = Inr ?v'"
    by code_simp
  have e: "aces small_store = []" "aces small_group_store = []"
    by code_simp+
  have l: "length (aces loaded_store) = 3"
    by (simp add: loaded_store_tables)
  note t = ace_has_one_principal [of loaded_store "''create''" "userResourceName 0" 0 small_store ?t'
      "''create''" "groupResourceName 0" 0 small_group_store ?v']
  have a: "list_all one_principal (aces loaded_store)"
    unfolding list_all_iff using t reachable_loaded_store by blast
  have b: "\<exists>a. aces ?t' = aces small_store @ [a] \<and> a_user_id a \<noteq> None \<and> a_group_id a = None"
    using t u e by auto
  have c: "\<exists>a. aces ?v' = aces small_group_store @ [a] \<and> a_user_id a = None \<and> a_group_id a \<noteq> None"
    using t g e by auto
  show ?thesis
    using reachable_loaded_store a l u b g c by blast
qed

subsection \<open>Panics\<close>

lemma select_errors:
  "select_user_id p s = Inl e \<Longrightarrow> e = ErrNoRows"
  "select_group_id p s = Inl e \<Longrightarrow> e = ErrNoRows"
  "select_resource_id p s = Inl e \<Longrightarrow> e = ErrNoRows"
  by (auto simp: select_user_id_def select_group_id_def select_resource_id_def split: option.splits)

lemma insert_errors:
  "insert_user a b c d f s = Inl e \<Longrightarrow> \<not> is_panic e"
  "insert_group a b s = Inl e \<Longrightarrow> \<not> is_panic e"
  "insert_resource a b s = Inl e \<Longrightarrow> \<not> is_panic e"
  "insert_user_group i j s = Inl e \<Longrightarrow> \<not> is_panic e"
  "insert_ace uo go ro acts s = Inl e \<Longrightarrow> \<not> is_panic e"
  by (auto simp: insert_user_def insert_group_def insert_resource_def insert_user_group_def
      insert_ace_def split: if_splits)

lemma scan_ace_errors: "scan_ace row = Inl e \<Longrightarrow> \<not> is_panic e"
  by (auto simp: scan_ace_def split: option.splits)

lemma tx_errors:
  "addUser_tx n s = Inl e \<Longrightarrow> \<not> is_panic e"
  "addGroup_tx n s = Inl e \<Longrightarrow> \<not> is_panic e"
  "addResource_tx name s = Inl e \<Longrightarrow> \<not> is_panic e"
  "addUserToGroup_tx g n s = Inl e \<Longrightarrow> \<not> is_panic e"
  "allowUserAccessToResource_tx action name n s = Inl e \<Longrightarrow> \<not> is_panic e"
  "allowGroupAccessToResource_tx action name n s = Inl e \<Longrightarrow> \<not> is_panic e"
  by (auto simp: addUser_tx_def addGroup_tx_def addResource_tx_def addUserToGroup_tx_def
      allowUserAccessToResource_tx_def allowGroupAccessToResource_tx_def
      select_user_ace_def select_group_ace_def update_ace_actions_def Let_def
      split: sum.splits prod.splits if_splits
      dest: select_errors insert_errors scan_ace_errors)

lemma ExecuteTx_error:
  assumes "ExecuteTx body s = (Some e, s')" and "\<And>e. body s = Inl e \<Longrightarrow> \<not> is_panic e"
  shows "\<not> is_panic e"
  using assms by (auto elim!: ExecuteTx_cases)

lemma for_each_no_panic:
  assumes "for_each xs f s = (Some e, s')"
    and "\<And>x t e' t'. f x t = (Some e', t') \<Longrightarrow> \<not> is_panic e'"
  shows "\<not> is_panic e"
  using for_each_error [OF assms(1)] assms(2) by blast

lemma addUsers_no_panic: "addUsers n s = (Some e, s') \<Longrightarrow> \<not> is_panic e"
  unfolding addUsers_def addUser_def
  by (erule for_each_no_panic) (erule ExecuteTx_error, rule tx_errors)

lemma addGroups_no_panic: "addGroups n s = (Some e, s') \<Longrightarrow> \<not> is_panic e"
  unfolding addGroups_def addGroup_def
  by (erule for_each_no_panic) (erule ExecuteTx_error, rule tx_errors)

lemma addResource_no_panic: "addResource name s = (Some e, s') \<Longrightarrow> \<not> is_panic e"
  unfolding addResource_def by (erule ExecuteTx_error) (rule tx_errors)

lemma allowUserAccessToResource_no_panic:
  "allowUserAccessToResource name n s = (Some e, s') \<Longrightarrow> \<not> is_panic e"
  unfolding allowUserAccessToResource_def
  by (erule for_each_no_panic) (erule ExecuteTx_error, rule tx_errors)

lemma allowGroupAccessToResource_no_panic:
  "allowGroupAccessToResource name n s = (Some e, s') \<Longrightarrow> \<not> is_panic e"
  unfolding allowGroupAccessToResource_def
  by (erule for_each_no_panic) (erule ExecuteTx_error, rule tx_errors)

lemma assignUserPermissions_no_panic:
  assumes "assignUserPermissions n u s = (Some e, s')"
  shows "\<not> is_panic e"
  using assms unfolding assignUserPermissions_def
proof (rule for_each_no_panic)
  fix p t e' t'
  assume f: "(let resource = userResourceName p
             in case addResource resource t of
                  (Some err, s') \<Rightarrow> (Some err, s')
                | (None, s') \<Rightarrow>
                    for_each (go_range u) (\<lambda>user. allowUserAccessToResource resource user) s')
            = (Some e', t')"
  obtain e1 t1 where a: "addResource (userResourceName p) t = (e1, t1)"
    by (cases "addResource (userResourceName p) t")
  show "\<not> is_panic e'"
  proof (cases e1)
    case (Some err)
    then show ?thesis using f a addResource_no_panic [of "userResourceName p" t err t1] by simp
  next
    case None
    then have "for_each (go_range u)
        (\<lambda>user. allowUserAccessToResource (userResourceName p) user) t1 = (Some e', t')"
      using f a by simp
    then show ?thesis
      by (rule for_each_no_panic) (rule allowUserAccessToResource_no_panic)
  qed
qed

lemma assignGroupPermissions_no_panic:
  assumes "assignGroupPermissions n g s = (Some e, s')"
  shows "\<not> is_panic e"
  using assms unfolding assignGroupPermissions_def
proof (rule for_each_no_panic)
  fix p t e' t'
  assume f: "(let resource = groupResourceName p
             in case addResource resource t of
                  (Some err, s') \<Rightarrow> (Some err, s')
                | (None, s') \<Rightarrow>
                    for_each (go_range g) (\<lambda>grp. allowGroupAccessToResource resource grp) s')
            = (Some e', t')"
  obtain e1 t1 where a: "addResource (groupResourceName p) t = (e1, t1)"
    by (cases "addResource (groupResourceName p) t")
  show "\<not> is_panic e'"
  proof (cases e1)
    case (Some err)
    then show ?thesis using f a addResource_no_panic [of "groupResourceName p" t err t1] by simp
  next
    case None
    then have "for_each (go_range g)
        (\<lambda>grp. allowGroupAccessToResource (groupResourceName p) grp) t1 = (Some e', t')"
      using f a by simp
    then show ?thesis
      by (rule for_each_no_panic) (rule allowGroupAccessToResource_no_panic)
  qed
qed

text \<open>The loop \<^verbatim>\<open>for ii := 0; ii < n; ii++\<close> has a round exactly when \<open>n\<close> is positive.\<close>

lemma go_range_Nil_iff: "go_range n = [] \<longleftrightarrow> \<not> 0 <s n"
  by (auto simp: go_range_def word_sless_alt)

lemma assignUsersToGroups_no_panic:
  assumes "assignUsersToGroups m g u s = (Some e, s')" and "0 <s m \<longrightarrow> u \<noteq> 0"
  shows "\<not> is_panic e"
proof -
  let ?body = "\<lambda>grp (ii :: go_int) (user, s).
                   case addUserToGroup grp user s of
                     (Some err, s') \<Rightarrow> (Some err, (user, s'))
                   | (None, s') \<Rightarrow>
                       (let user = user + 1
                        in if u = 0 then (Some PanicDivideByZero, (user, s'))
                           else (None, (go_rem user u, s')))"
  let ?outer = "for_each (go_range g) (\<lambda>grp. for_each (go_range m) (?body grp)) (0, s)"
  obtain e1 t1 where o: "?outer = (e1, t1)"
    by (cases ?outer) auto
  have e1: "e1 = Some e"
    using assms(1) o unfolding assignUsersToGroups_def by (cases t1) simp
  have body: "\<not> is_panic e'" if "?body grp ii t = (Some e', t')" and "u \<noteq> 0" for grp ii t e' t'
  proof -
    obtain user st where t: "t = (user, st)" by (cases t)
    obtain e2 st2 where a: "addUserToGroup grp user st = (e2, st2)"
      by (cases "addUserToGroup grp user st")
    show ?thesis
    proof (cases e2)
      case None
      then show ?thesis using that t a by (simp add: Let_def)
    next
      case (Some err)
      then have "e' = err" using that(1) t a by simp
      moreover have "\<not> is_panic err"
        using a Some unfolding addUserToGroup_def
        by (auto elim!: ExecuteTx_error dest: tx_errors)
      ultimately show ?thesis by simp
    qed
  qed
  from for_each_error [OF o [unfolded e1]] obtain grp t t'
    where i: "for_each (go_range m) (?body grp) t = (Some e, t')" by blast
  then have "go_range m \<noteq> []" by auto
  then have "u \<noteq> 0" using assms(2) by (simp add: go_range_Nil_iff)
  from for_each_error [OF i] obtain ii t2 t2' where "?body grp ii t2 = (Some e, t2')"
    by blast
  from body [OF this \<open>u \<noteq> 0\<close>] show ?thesis .
qed

lemma prepareData_no_panic:
  assumes "sane [u, g, m, up, gp]"
  shows "\<forall>e. fst (prepareData [u, g, m, up, gp] s) = Some e \<longrightarrow> \<not> is_panic e"
proof (intro allI impI)
  fix e assume e: "fst (prepareData [u, g, m, up, gp] s) = Some e"
  obtain s' where p: "prepareData [u, g, m, up, gp] s = (Some e, s')"
    using e by (cases "prepareData [u, g, m, up, gp] s") simp
  have mu: "0 <s m \<longrightarrow> u \<noteq> 0"
    using assms by (auto simp: sane_unfold)
  have "for_each [addUsers u, addGroups g, assignUsersToGroups m g u,
               assignUserPermissions up u, assignGroupPermissions gp g]
              (\<lambda>phase. phase) s = (Some e, s')"
    using p prepareData_phases [OF assms, of s]
    by (simp add: Users_def Groups_def Members_def UserPermissions_def GroupPermissions_def)
  from for_each_error [OF this] show "\<not> is_panic e"
    using addUsers_no_panic addGroups_no_panic assignUsersToGroups_no_panic [OF _ mu]
      assignUserPermissions_no_panic assignGroupPermissions_no_panic
    by auto
qed

text \<open>
  Claim C10. For a tuple that passes the sanity check: when the inner loop of the
  membership assignment has a round (members and groups both positive), users is positive;
  the membership assignment never hits the division by zero of \<^verbatim>\<open>user % users\<close>, on any
  store; and the load neither hits it nor fires its sanity assertion. The driver never
  ends in either panic, for any tuple: it hands only sane tuples to the load.
\<close>

theorem load_never_divides_by_zero:
  "(sane [u, g, m, up, gp] \<longrightarrow>
       (0 <s m \<and> 0 <s g \<longrightarrow> 0 <s u)
     \<and> fst (assignUsersToGroups m g u s) \<noteq> Some PanicDivideByZero
     \<and> fst (prepareData [u, g, m, up, gp] s) \<noteq> Some PanicDivideByZero
     \<and> fst (prepareData [u, g, m, up, gp] s) \<noteq> Some PanicNotSane)
   \<and> fst (runWithCounts [u, g, m, up, gp] s) \<noteq> Some PanicNotSane
   \<and> fst (runWithCounts [u, g, m, up, gp] s) \<noteq> Some PanicDivideByZero"
proof -
  have load: "(0 <s m \<and> 0 <s g \<longrightarrow> 0 <s u)
     \<and> fst (assignUsersToGroups m g u s) \<noteq> Some PanicDivideByZero
     \<and> fst (prepareData [u, g, m, up, gp] s) \<noteq> Some PanicDivideByZero
     \<and> fst (prepareData [u, g, m, up, gp] s) \<noteq> Some PanicNotSane"
    if sane: "sane [u, g, m, up, gp]"
  proof (intro conjI)
    show "0 <s m \<and> 0 <s g \<longrightarrow> 0 <s u"
      using sane by (auto simp: sane_unfold word_sless_alt)
    have mu: "0 <s m \<longrightarrow> u \<noteq> 0"
      using sane by (auto simp: sane_unfold)
    show "fst (assignUsersToGroups m g u s) \<noteq> Some PanicDivideByZero"
    proof
      assume a: "fst (assignUsersToGroups m g u s) = Some PanicDivideByZero"
      then obtain s' where "assignUsersToGroups m g u s = (Some PanicDivideByZero, s')"
        by (cases "assignUsersToGroups m g u s") simp
      from assignUsersToGroups_no_panic [OF this mu] show False by simp
    qed
    show "fst (prepareData [u, g, m, up, gp] s) \<noteq> Some PanicDivideByZero"
      using prepareData_no_panic [OF sane, of s] by auto
    show "fst (prepareData [u, g, m, up, gp] s) \<noteq> Some PanicNotSane"
      using prepareData_no_panic [OF sane, of s] by auto
  qed
  have run: "fst (runWithCounts [u, g, m, up, gp] s) \<noteq> Some PanicNotSane
     \<and> fst (runWithCounts [u, g, m, up, gp] s) \<noteq> Some PanicDivideByZero"
  proof (cases "sane [u, g, m, up, gp]")
    case False
    then show ?thesis by (simp add: runWithCounts_def)
  next
    case True
    obtain e s1 where p: "prepareData [u, g, m, up, gp] s = (e, s1)"
      by (cases "prepareData [u, g, m, up, gp] s")
    obtain c s2 where r: "removeData s1 = (c, s2)"
      by (cases "removeData s1")
    have "e \<noteq> Some PanicNotSane" "e \<noteq> Some PanicDivideByZero"
      using load [OF True] p by simp_all
    then show ?thesis
      using True p r by (cases c) (simp_all add: runWithCounts_def)
  qed
  show ?thesis
    using load run by blast
qed

theorem load_never_divides_by_zero_witness:
  "sane [2, 1, 1, 1, 1] \<and> (0 :: go_int) <s 1 \<and> (0 :: go_int) <s 2
   \<and> fst (assignUsersToGroups 1 1 2 fresh_store) \<noteq> Some PanicDivideByZero
   \<and> fst (prepareData [2, 1, 1, 1, 1] fresh_store) \<noteq> Some PanicDivideByZero
   \<and> fst (prepareData [2, 1, 1, 1, 1] fresh_store) \<noteq> Some PanicNotSane
   \<and> fst (runWithCounts [2, 1, 1, 1, 1] fresh_store) \<noteq> Some PanicNotSane
   \<and> fst (runWithCounts [2, 1, 1, 1, 1] fresh_store) \<noteq> Some PanicDivideByZero
   \<and> fst (prepareData [2, 1, 1, 1, 1] fresh_store) = None
   \<and> fst (assignUsersToGroups 1 1 0 (snd (prepareData [1, 1, 0, 0, 0] fresh_store)))
       = Some PanicDivideByZero"
proof -
  have s: "sane [2, 1, 1, 1, 1]"
    by (simp add: sane_unfold word_sless_alt)
  have p: "(0 :: go_int) <s 1" "(0 :: go_int) <s 2"
    by (simp_all add: word_sless_alt)
  have n: "fst (prepareData [2, 1, 1, 1, 1] fresh_store) = None"
    by code_simp
  have z: "fst (assignUsersToGroups 1 1 0 (snd (prepareData [1, 1, 0, 0, 0] fresh_store)))
       = Some PanicDivideByZero"
    by code_simp
  show ?thesis
    using s p n z load_never_divides_by_zero [of 2 1 1 1 1 fresh_store] by blast
qed

subsection \<open>Keys in order\<close>

lemma keys_ok_Nil: "keys_ok key ident [] n"
  by (simp add: keys_ok_def)

lemma keys_ok_mono:
  assumes "keys_ok key ident rows n" and "n \<le> m"
  shows "keys_ok key ident rows m"
proof -
  have "\<forall>x \<in> set rows. ident x < m"
  proof
    fix x assume "x \<in> set rows"
    then have "ident x < n" using assms(1) by (simp add: keys_ok_def)
    then show "ident x < m" using assms(2) by simp
  qed
  then show ?thesis using assms(1) by (simp add: keys_ok_def)
qed

lemma keys_ok_snoc:
  assumes "keys_ok key ident rows n" and "key x = Some k" and "plain k"
    and "\<forall>y \<in> set rows. key y \<noteq> Some k" and "ident x = n"
  shows "keys_ok key ident (rows @ [x]) (n + 1)"
proof -
  have a: "\<forall>y \<in> set rows. ident y < n"
    and b: "\<forall>y \<in> set rows. \<exists>k. key y = Some k \<and> plain k"
    and c: "distinct (map key rows)" and d: "distinct (map ident rows)"
    using assms(1) by (simp_all add: keys_ok_def)
  have "key x \<notin> key ` set rows"
    using assms(2,4) by auto
  moreover have "ident x \<notin> ident ` set rows"
    using a assms(5) by auto
  moreover have "\<forall>y \<in> set rows. ident y < n + 1"
    using a by auto
  ultimately show ?thesis
    using assms(2,3,5) b c d by (simp add: keys_ok_def)
qed

lemma keys_ok_filter:
  assumes "keys_ok key ident rows n"
  shows "keys_ok key ident (filter P rows) n"
proof -
  have k: "distinct (map key rows)" and i: "distinct (map ident rows)"
    using assms by (simp_all add: keys_ok_def)
  have "distinct (map key (filter P rows))"
    using k by (rule distinct_map_filter)
  moreover have "distinct (map ident (filter P rows))"
    using i by (rule distinct_map_filter)
  ultimately show ?thesis
    using assms by (simp add: keys_ok_def)
qed

lemma find_unique:
  assumes "x \<in> set xs" and "P x" and "\<forall>y \<in> set xs. P y \<longrightarrow> y = x"
  shows "find P xs = Some x"
proof (cases "find P xs")
  case None
  then show ?thesis using assms(1,2) by (simp add: find_None_iff)
next
  case (Some y)
  then have "y \<in> set xs" "P y"
    by (auto simp: find_Some_iff)
  then have "y = x" using assms(3) by simp
  then show ?thesis using Some by simp
qed

lemma keys_ok_find:
  assumes ok: "keys_ok key ident rows n" and x: "x \<in> set rows" and k: "key x = Some k"
  shows "find (\<lambda>y. like_null (key y) k) rows = Some x"
proof (rule find_unique [OF x])
  have pk: "plain k" using ok x k by (auto simp: keys_ok_def)
  have "inj_on key (set rows)"
    using ok by (simp add: keys_ok_def distinct_map)
  show "like_null (key x) k"
    using k pk by (simp add: like_null_def like_plain)
  show "\<forall>y \<in> set rows. like_null (key y) k \<longrightarrow> y = x"
  proof (intro ballI impI)
    fix y assume y: "y \<in> set rows" and l: "like_null (key y) k"
    then have "key y = Some k"
      using pk by (auto simp: like_null_def like_plain split: option.splits)
    moreover note \<open>inj_on key (set rows)\<close>
    ultimately have "key y = key x" using k by simp
    with \<open>inj_on key (set rows)\<close> show "y = x" using y x by (rule inj_onD)
  qed
qed

lemma keys_ok_remove:
  assumes ok: "keys_ok key ident rows n" and x: "x \<in> set rows"
  shows "filter (\<lambda>y. ident y \<noteq> ident x) rows = filter (\<lambda>y. key y \<noteq> key x) rows"
proof (rule filter_cong [OF refl])
  fix y assume y: "y \<in> set rows"
  have "inj_on key (set rows)" "inj_on ident (set rows)"
    using ok by (simp_all add: keys_ok_def distinct_map)
  then have "(ident y = ident x) = (y = x)" "(key y = key x) = (y = x)"
    using x y by (simp_all add: inj_on_eq_iff)
  then show "(ident y \<noteq> ident x) = (key y \<noteq> key x)"
    by simp
qed

lemma those_map_Some: "those (map Some ks) = Some ks"
  by (induction ks) auto

lemma distinct_map_Some: "distinct (map Some ks) = distinct ks"
  by (simp add: distinct_map)

lemma keys_ok_scan:
  assumes "keys_ok key ident rows n"
  shows "\<exists>ks. scan_keys (map key rows) = Inr ks \<and> map Some ks = map key rows \<and> distinct ks"
proof -
  have "\<forall>x \<in> set rows. key x \<noteq> None"
    using assms by (auto simp: keys_ok_def)
  then have m: "map Some (map (the \<circ> key) rows) = map key rows"
    by (induction rows) auto
  have "distinct (map Some (map (the \<circ> key) rows))"
    using assms unfolding m by (simp add: keys_ok_def)
  then have d: "distinct (map (the \<circ> key) rows)"
    by (simp only: distinct_map_Some)
  have "scan_keys (map key rows) = Inr (map (the \<circ> key) rows)"
    unfolding scan_keys_def m [symmetric] those_map_Some by simp
  with m d show ?thesis by blast
qed


subsection \<open>Every reachable store is in order\<close>

lemma invD:
  assumes "inv s"
  shows "keys_ok u_uid u_id (users s) (rowid s)"
    and "keys_ok g_gid g_id (groups s) (rowid s)"
    and "keys_ok r_rid r_id (resources s) (rowid s)"
    and "\<forall>m \<in> set (user_groups s). ug_user_id m \<in> u_id ` set (users s)"
    and "\<forall>a \<in> set (aces s). \<exists>r \<in> set (resources s). a_resource_id a = Some (r_id r)"
  using assms by (simp_all add: inv_def)

lemma invI:
  assumes "keys_ok u_uid u_id (users s) (rowid s)"
    and "keys_ok g_gid g_id (groups s) (rowid s)"
    and "keys_ok r_rid r_id (resources s) (rowid s)"
    and "\<forall>m \<in> set (user_groups s). ug_user_id m \<in> u_id ` set (users s)"
    and "\<forall>a \<in> set (aces s). \<exists>r \<in> set (resources s). a_resource_id a = Some (r_id r)"
  shows "inv s"
  using assms by (simp add: inv_def)

lemma inv_createSchema: "createSchema s0 = Inr s \<Longrightarrow> inv s"
  by (simp add: inv_def createSchema_effect keys_ok_Nil)

lemma inv_addUser:
  assumes i: "inv s" and t: "addUser_tx n s = Inr s'"
  shows "inv s'"
proof -
  note e = addUser_tx_effect [OF t]
  from e(1) obtain u where
    u: "users s' = users s @ [u]" "u_id u = rowid s" "u_uid u = Some (Itoa n)" by blast
  show ?thesis
  proof (rule invI)
    show "keys_ok u_uid u_id (users s') (rowid s')"
      unfolding u(1) e(7)
      by (rule keys_ok_snoc [OF invD(1) [OF i] u(3) plain_Itoa e(2) u(2)])
    show "keys_ok g_gid g_id (groups s') (rowid s')"
      unfolding e(3) e(7) by (rule keys_ok_mono [OF invD(2) [OF i]]) simp
    show "keys_ok r_rid r_id (resources s') (rowid s')"
      unfolding e(4) e(7) by (rule keys_ok_mono [OF invD(3) [OF i]]) simp
    show "\<forall>m \<in> set (user_groups s'). ug_user_id m \<in> u_id ` set (users s')"
      unfolding e(5) u(1) using invD(4) [OF i] by auto
    show "\<forall>a \<in> set (aces s'). \<exists>r \<in> set (resources s'). a_resource_id a = Some (r_id r)"
      unfolding e(4) e(6) by (rule invD(5) [OF i])
  qed
qed

lemma inv_addGroup:
  assumes i: "inv s" and t: "addGroup_tx n s = Inr s'"
  shows "inv s'"
proof -
  note e = addGroup_tx_effect [OF t]
  from e(1) obtain g where
    g: "groups s' = groups s @ [g]" "g_id g = rowid s" "g_gid g = Some (Itoa n)" by blast
  show ?thesis
  proof (rule invI)
    show "keys_ok g_gid g_id (groups s') (rowid s')"
      unfolding g(1) e(7)
      by (rule keys_ok_snoc [OF invD(2) [OF i] g(3) plain_Itoa e(2) g(2)])
    show "keys_ok u_uid u_id (users s') (rowid s')"
      unfolding e(3) e(7) by (rule keys_ok_mono [OF invD(1) [OF i]]) simp
    show "keys_ok r_rid r_id (resources s') (rowid s')"
      unfolding e(4) e(7) by (rule keys_ok_mono [OF invD(3) [OF i]]) simp
    show "\<forall>m \<in> set (user_groups s'). ug_user_id m \<in> u_id ` set (users s')"
      unfolding e(5) e(3) by (rule invD(4) [OF i])
    show "\<forall>a \<in> set (aces s'). \<exists>r \<in> set (resources s'). a_resource_id a = Some (r_id r)"
      unfolding e(4) e(6) by (rule invD(5) [OF i])
  qed
qed

lemma inv_addResource:
  assumes i: "inv s" and t: "addResource_tx name s = Inr s'" and p: "plain name"
  shows "inv s'"
proof -
  note e = addResource_tx_effect [OF t]
  from e(1) obtain r where
    r: "resources s' = resources s @ [r]" "r_id r = rowid s" "r_rid r = Some name" by blast
  show ?thesis
  proof (rule invI)
    show "keys_ok r_rid r_id (resources s') (rowid s')"
      unfolding r(1) e(7)
      by (rule keys_ok_snoc [OF invD(3) [OF i] r(3) p e(2) r(2)])
    show "keys_ok u_uid u_id (users s') (rowid s')"
      unfolding e(3) e(7) by (rule keys_ok_mono [OF invD(1) [OF i]]) simp
    show "keys_ok g_gid g_id (groups s') (rowid s')"
      unfolding e(4) e(7) by (rule keys_ok_mono [OF invD(2) [OF i]]) simp
    show "\<forall>m \<in> set (user_groups s'). ug_user_id m \<in> u_id ` set (users s')"
      unfolding e(5) e(3) by (rule invD(4) [OF i])
    show "\<forall>a \<in> set (aces s'). \<exists>r \<in> set (resources s'). a_resource_id a = Some (r_id r)"
      unfolding e(6) r(1) using invD(5) [OF i] by auto
  qed
qed

lemma inv_addUserToGroup:
  assumes i: "inv s" and t: "addUserToGroup_tx g n s = Inr s'"
  shows "inv s'"
proof -
  note e = addUserToGroup_tx_effect [OF t]
  from e(1) obtain m where
    m: "user_groups s' = user_groups s @ [m]" "ug_user_id m \<in> u_id ` set (users s)" by blast
  show ?thesis
  proof (rule invI)
    show "keys_ok u_uid u_id (users s') (rowid s')"
      unfolding e(2) e(6) by (rule invD(1) [OF i])
    show "keys_ok g_gid g_id (groups s') (rowid s')"
      unfolding e(3) e(6) by (rule invD(2) [OF i])
    show "keys_ok r_rid r_id (resources s') (rowid s')"
      unfolding e(4) e(6) by (rule invD(3) [OF i])
    show "\<forall>m \<in> set (user_groups s'). ug_user_id m \<in> u_id ` set (users s')"
      unfolding m(1) e(2) using invD(4) [OF i] m(2) by auto
    show "\<forall>a \<in> set (aces s'). \<exists>r \<in> set (resources s'). a_resource_id a = Some (r_id r)"
      unfolding e(4) e(5) by (rule invD(5) [OF i])
  qed
qed

lemma inv_upsert:
  assumes i: "inv s"
    and e: "users s' = users s" "groups s' = groups s" "resources s' = resources s"
    "user_groups s' = user_groups s" "rowid s \<le> rowid s'"
    and a: "(\<exists>str i. aces s' = map (\<lambda>a. if a_id a = i then a\<lparr>a_actions := Some str\<rparr> else a) (aces s))
     \<or> (\<exists>a. aces s' = aces s @ [a] \<and> a_resource_id a \<in> Some ` r_id ` set (resources s))"
  shows "inv s'"
proof (rule invI)
  show "keys_ok u_uid u_id (users s') (rowid s')"
    unfolding e(1) by (rule keys_ok_mono [OF invD(1) [OF i] e(5)])
  show "keys_ok g_gid g_id (groups s') (rowid s')"
    unfolding e(2) by (rule keys_ok_mono [OF invD(2) [OF i] e(5)])
  show "keys_ok r_rid r_id (resources s') (rowid s')"
    unfolding e(3) by (rule keys_ok_mono [OF invD(3) [OF i] e(5)])
  show "\<forall>m \<in> set (user_groups s'). ug_user_id m \<in> u_id ` set (users s')"
    unfolding e(1) e(4) by (rule invD(4) [OF i])
  show "\<forall>a \<in> set (aces s'). \<exists>r \<in> set (resources s'). a_resource_id a = Some (r_id r)"
    unfolding e(3) using a invD(5) [OF i] by auto
qed

lemma inv_allowUser:
  assumes "inv s" and t: "allowUserAccessToResource_tx action name n s = Inr s'"
  shows "inv s'"
  using assms(1) allowUser_tx_effect(1-5) [OF t]
proof (rule inv_upsert)
  show "(\<exists>str i. aces s' = map (\<lambda>a. if a_id a = i then a\<lparr>a_actions := Some str\<rparr> else a) (aces s))
     \<or> (\<exists>a. aces s' = aces s @ [a] \<and> a_resource_id a \<in> Some ` r_id ` set (resources s))"
    using allowUser_tx_effect(6) [OF t] by blast
qed

lemma inv_allowGroup:
  assumes "inv s" and t: "allowGroupAccessToResource_tx action name n s = Inr s'"
  shows "inv s'"
  using assms(1) allowGroup_tx_effect(1-5) [OF t]
proof (rule inv_upsert)
  show "(\<exists>str i. aces s' = map (\<lambda>a. if a_id a = i then a\<lparr>a_actions := Some str\<rparr> else a) (aces s))
     \<or> (\<exists>a. aces s' = aces s @ [a] \<and> a_resource_id a \<in> Some ` r_id ` set (resources s))"
    using allowGroup_tx_effect(6) [OF t] by blast
qed

lemma inv_removeUser:
  assumes i: "inv s" and t: "removeUser_tx uid s = Inr s'"
  shows "inv s'"
proof -
  note e = removeUser_tx_effect [OF t]
  from e(1) obtain u where "u \<in> set (users s)"
    and c: "like_null (u_uid u) uid \<and>
           find (\<lambda>u. like_null (u_uid u) uid) (users s) = Some u \<and>
           users s' = filter (\<lambda>v. u_id v \<noteq> u_id u) (users s) \<and>
           user_groups s' = filter (\<lambda>m. ug_user_id m \<noteq> u_id u) (user_groups s) \<and>
           aces s' = filter (\<lambda>a. a_user_id a \<noteq> Some (u_id u)) (aces s)"
    by (rule bexE)
  from c have
    u: "users s' = filter (\<lambda>v. u_id v \<noteq> u_id u) (users s)"
       "user_groups s' = filter (\<lambda>m. ug_user_id m \<noteq> u_id u) (user_groups s)"
       "aces s' = filter (\<lambda>a. a_user_id a \<noteq> Some (u_id u)) (aces s)"
    by simp_all
  show ?thesis
  proof (rule invI)
    show "keys_ok u_uid u_id (users s') (rowid s')"
      unfolding u(1) e(4) by (rule keys_ok_filter [OF invD(1) [OF i]])
    show "keys_ok g_gid g_id (groups s') (rowid s')"
      unfolding e(2) e(4) by (rule invD(2) [OF i])
    show "keys_ok r_rid r_id (resources s') (rowid s')"
      unfolding e(3) e(4) by (rule invD(3) [OF i])
    show "\<forall>m \<in> set (user_groups s'). ug_user_id m \<in> u_id ` set (users s')"
      unfolding u(1) u(2) using invD(4) [OF i] by auto
    show "\<forall>a \<in> set (aces s'). \<exists>r \<in> set (resources s'). a_resource_id a = Some (r_id r)"
      unfolding u(3) e(3) using invD(5) [OF i] by auto
  qed
qed

lemma inv_removeGroup:
  assumes i: "inv s" and t: "removeGroup_tx gid s = Inr s'"
  shows "inv s'"
proof -
  note e = removeGroup_tx_effect [OF t]
  from e(1) obtain g where "g \<in> set (groups s)"
    and c: "like_null (g_gid g) gid \<and>
           find (\<lambda>g. like_null (g_gid g) gid) (groups s) = Some g \<and>
           groups s' = filter (\<lambda>v. g_id v \<noteq> g_id g) (groups s) \<and>
           user_groups s' = filter (\<lambda>m. ug_group_id m \<noteq> g_id g) (user_groups s) \<and>
           aces s' = filter (\<lambda>a. a_group_id a \<noteq> Some (g_id g)) (aces s)"
    by (rule bexE)
  from c have
    g: "groups s' = filter (\<lambda>v. g_id v \<noteq> g_id g) (groups s)"
       "user_groups s' = filter (\<lambda>m. ug_group_id m \<noteq> g_id g) (user_groups s)"
       "aces s' = filter (\<lambda>a. a_group_id a \<noteq> Some (g_id g)) (aces s)"
    by simp_all
  show ?thesis
  proof (rule invI)
    show "keys_ok u_uid u_id (users s') (rowid s')"
      unfolding e(2) e(4) by (rule invD(1) [OF i])
    show "keys_ok g_gid g_id (groups s') (rowid s')"
      unfolding g(1) e(4) by (rule keys_ok_filter [OF invD(2) [OF i]])
    show "keys_ok r_rid r_id (resources s') (rowid s')"
      unfolding e(3) e(4) by (rule invD(3) [OF i])
    show "\<forall>m \<in> set (user_groups s'). ug_user_id m \<in> u_id ` set (users s')"
      unfolding e(2) g(2) using invD(4) [OF i] by auto
    show "\<forall>a \<in> set (aces s'). \<exists>r \<in> set (resources s'). a_resource_id a = Some (r_id r)"
      unfolding g(3) e(3) using invD(5) [OF i] by auto
  qed
qed

lemma inv_removeResource:
  assumes i: "inv s" and t: "removeResource_tx rid s = Inr s'"
  shows "inv s'"
proof -
  note e = removeResource_tx_effect [OF t]
  from e(1) obtain r where "r \<in> set (resources s)"
    and c: "like_null (r_rid r) rid \<and>
           find (\<lambda>r. like_null (r_rid r) rid) (resources s) = Some r \<and>
           resources s' = filter (\<lambda>v. r_id v \<noteq> r_id r) (resources s) \<and>
           aces s' = filter (\<lambda>a. a_resource_id a \<noteq> Some (r_id r)) (aces s)"
    by (rule bexE)
  from c have
    r: "resources s' = filter (\<lambda>v. r_id v \<noteq> r_id r) (resources s)"
       "aces s' = filter (\<lambda>a. a_resource_id a \<noteq> Some (r_id r)) (aces s)"
    by simp_all
  show ?thesis
  proof (rule invI)
    show "keys_ok u_uid u_id (users s') (rowid s')"
      unfolding e(2) e(5) by (rule invD(1) [OF i])
    show "keys_ok g_gid g_id (groups s') (rowid s')"
      unfolding e(3) e(5) by (rule invD(2) [OF i])
    show "keys_ok r_rid r_id (resources s') (rowid s')"
      unfolding r(1) e(5) by (rule keys_ok_filter [OF invD(3) [OF i]])
    show "\<forall>m \<in> set (user_groups s'). ug_user_id m \<in> u_id ` set (users s')"
      unfolding e(2) e(4) by (rule invD(4) [OF i])
    show "\<forall>a \<in> set (aces s'). \<exists>r \<in> set (resources s'). a_resource_id a = Some (r_id r)"
      unfolding r(1) r(2) using invD(5) [OF i] by fastforce
  qed
qed

lemma reachable_inv: "reachable s \<Longrightarrow> inv s"
proof (induction rule: reachable.induct)
  case (r_createSchema s0 s)
  then show ?case by (rule inv_createSchema)
next
  case (r_addUser s userid s')
  then show ?case by (blast intro: inv_addUser)
next
  case (r_addGroup s groupid s')
  then show ?case by (blast intro: inv_addGroup)
next
  case (r_addUserToGroup s grp user s')
  then show ?case by (blast intro: inv_addUserToGroup)
next
  case (r_addUserResource s permission s')
  then show ?case by (blast intro: inv_addResource plain_userResourceName)
next
  case (r_addGroupResource s permission s')
  then show ?case by (blast intro: inv_addResource plain_groupResourceName)
next
  case (r_allowUser s action permission uid s')
  then show ?case by (blast intro: inv_allowUser)
next
  case (r_allowGroup s action permission gid s')
  then show ?case by (blast intro: inv_allowGroup)
next
  case (r_removeUser s uid s')
  then show ?case by (blast intro: inv_removeUser)
next
  case (r_removeGroup s gid s')
  then show ?case by (blast intro: inv_removeGroup)
next
  case (r_removeResource s rid s')
  then show ?case by (blast intro: inv_removeResource)
qed

subsection \<open>The teardown empties every table\<close>

lemma filter_filter_keys:
  "filter (\<lambda>x. key x \<notin> Some ` set ks) (filter (\<lambda>x. key x \<noteq> Some k) rows)
   = filter (\<lambda>x. key x \<notin> Some ` set (k # ks)) rows"
  by (induction rows) auto

lemma keys_remaining:
  assumes "distinct (k # ks)" and "Some ` set (k # ks) \<subseteq> key ` set rows"
  shows "Some ` set ks \<subseteq> key ` set (filter (\<lambda>x. key x \<noteq> Some k) rows)"
proof
  fix v assume "v \<in> Some ` set ks"
  then obtain k' where k': "k' \<in> set ks" "v = Some k'" by blast
  then have "k' \<noteq> k" using assms(1) by auto
  moreover from k' assms(2) obtain x where "x \<in> set rows" "key x = Some k'" by force
  ultimately show "v \<in> key ` set (filter (\<lambda>x. key x \<noteq> Some k) rows)"
    using k'(2) by force
qed

lemma removeUser_row:
  assumes i: "inv s" and u: "u \<in> set (users s)" and k: "u_uid u = Some k"
  shows "\<exists>s'. removeUser k s = (None, s') \<and> inv s'
     \<and> users s' = filter (\<lambda>v. u_uid v \<noteq> Some k) (users s)
     \<and> groups s' = groups s \<and> resources s' = resources s"
proof -
  have f: "find (\<lambda>y. like_null (u_uid y) k) (users s) = Some u"
    by (rule keys_ok_find [OF invD(1) [OF i] u k])
  then obtain s' where t: "removeUser_tx k s = Inr s'"
    by (simp add: removeUser_tx_def select_user_id_def Let_def)
  note e = removeUser_tx_effect [OF t]
  from e(1) f have "users s' = filter (\<lambda>v. u_id v \<noteq> u_id u) (users s)"
    by auto
  then have "users s' = filter (\<lambda>v. u_uid v \<noteq> Some k) (users s)"
    using keys_ok_remove [OF invD(1) [OF i] u] k by simp
  moreover have "inv s'" by (rule inv_removeUser [OF i t])
  moreover have "removeUser k s = (None, s')"
    using t by (simp add: removeUser_def ExecuteTx_def)
  ultimately show ?thesis using e(2,3) by blast
qed

lemma removeUsers_loop:
  assumes "inv s" and "distinct ks" and "Some ` set ks \<subseteq> u_uid ` set (users s)"
  shows "\<exists>s'. for_each ks (\<lambda>uid. removeUser uid) s = (None, s') \<and> inv s'
     \<and> users s' = filter (\<lambda>u. u_uid u \<notin> Some ` set ks) (users s)
     \<and> groups s' = groups s \<and> resources s' = resources s"
  using assms
proof (induction ks arbitrary: s)
  case Nil
  then show ?case by simp
next
  case (Cons k ks)
  from Cons.prems(3) obtain u where u: "u \<in> set (users s)" "u_uid u = Some k"
    by force
  from removeUser_row [OF Cons.prems(1) u] obtain s1 where
    s1: "removeUser k s = (None, s1)" "inv s1"
      "users s1 = filter (\<lambda>v. u_uid v \<noteq> Some k) (users s)"
      "groups s1 = groups s" "resources s1 = resources s"
    by blast
  have sub: "Some ` set ks \<subseteq> u_uid ` set (users s1)"
    unfolding s1(3) by (rule keys_remaining [OF Cons.prems(2,3)])
  have d: "distinct ks" using Cons.prems(2) by simp
  from Cons.IH [OF s1(2) d sub] obtain s' where
    s': "for_each ks (\<lambda>uid. removeUser uid) s1 = (None, s')" "inv s'"
      "users s' = filter (\<lambda>u. u_uid u \<notin> Some ` set ks) (users s1)"
      "groups s' = groups s1" "resources s' = resources s1"
    by blast
  have "users s' = filter (\<lambda>u. u_uid u \<notin> Some ` set (k # ks)) (users s)"
    unfolding s'(3) s1(3) by (rule filter_filter_keys)
  moreover have "for_each (k # ks) (\<lambda>uid. removeUser uid) s = (None, s')"
    using s1(1) s'(1) by simp
  ultimately show ?case
    using s'(2,4,5) s1(4,5) by auto
qed

lemma filter_all_keys:
  assumes "map Some ks = map key rows"
  shows "filter (\<lambda>x. key x \<notin> Some ` set ks) rows = []"
proof -
  have "set (map Some ks) = set (map key rows)" using assms by simp
  then have "Some ` set ks = key ` set rows" by simp
  then show ?thesis by (simp add: filter_empty_conv)
qed

lemma removeUsers_empties:
  assumes i: "inv s"
  shows "\<exists>s'. removeUsers s = (None, s') \<and> inv s' \<and> users s' = []
     \<and> groups s' = groups s \<and> resources s' = resources s"
proof -
  from keys_ok_scan [OF invD(1) [OF i]] obtain ks where
    ks: "scan_keys (map u_uid (users s)) = Inr ks" "map Some ks = map u_uid (users s)" "distinct ks"
    by blast
  have "set (map Some ks) = set (map u_uid (users s))" using ks(2) by simp
  then have sub: "Some ` set ks \<subseteq> u_uid ` set (users s)" by simp
  from removeUsers_loop [OF i ks(3) sub] obtain s' where
    s': "for_each ks (\<lambda>uid. removeUser uid) s = (None, s')" "inv s'"
      "users s' = filter (\<lambda>u. u_uid u \<notin> Some ` set ks) (users s)"
      "groups s' = groups s" "resources s' = resources s"
    by blast
  have "users s' = []"
    unfolding s'(3) by (rule filter_all_keys [OF ks(2)])
  moreover have "removeUsers s = (None, s')"
    using ks(1) s'(1) by (simp add: removeUsers_def findUsers_def)
  ultimately show ?thesis using s'(2,4,5) by blast
qed


lemma removeGroup_row:
  assumes i: "inv s" and u: "u \<in> set (groups s)" and k: "g_gid u = Some k"
  shows "\<exists>s'. removeGroup k s = (None, s') \<and> inv s'
     \<and> groups s' = filter (\<lambda>v. g_gid v \<noteq> Some k) (groups s)
     \<and> users s' = users s \<and> resources s' = resources s"
proof -
  have f: "find (\<lambda>y. like_null (g_gid y) k) (groups s) = Some u"
    by (rule keys_ok_find [OF invD(2) [OF i] u k])
  then obtain s' where t: "removeGroup_tx k s = Inr s'"
    by (simp add: removeGroup_tx_def select_group_id_def Let_def)
  note e = removeGroup_tx_effect [OF t]
  from e(1) f have "groups s' = filter (\<lambda>v. g_id v \<noteq> g_id u) (groups s)"
    by auto
  then have "groups s' = filter (\<lambda>v. g_gid v \<noteq> Some k) (groups s)"
    using keys_ok_remove [OF invD(2) [OF i] u] k by simp
  moreover have "inv s'" by (rule inv_removeGroup [OF i t])
  moreover have "removeGroup k s = (None, s')"
    using t by (simp add: removeGroup_def ExecuteTx_def)
  ultimately show ?thesis using e(2,3) by blast
qed

lemma removeGroups_loop:
  assumes "inv s" and "distinct ks" and "Some ` set ks \<subseteq> g_gid ` set (groups s)"
  shows "\<exists>s'. for_each ks (\<lambda>uid. removeGroup uid) s = (None, s') \<and> inv s'
     \<and> groups s' = filter (\<lambda>u. g_gid u \<notin> Some ` set ks) (groups s)
     \<and> users s' = users s \<and> resources s' = resources s"
  using assms
proof (induction ks arbitrary: s)
  case Nil
  then show ?case by simp
next
  case (Cons k ks)
  from Cons.prems(3) obtain u where u: "u \<in> set (groups s)" "g_gid u = Some k"
    by force
  from removeGroup_row [OF Cons.prems(1) u] obtain s1 where
    s1: "removeGroup k s = (None, s1)" "inv s1"
      "groups s1 = filter (\<lambda>v. g_gid v \<noteq> Some k) (groups s)"
      "users s1 = users s" "resources s1 = resources s"
    by blast
  have sub: "Some ` set ks \<subseteq> g_gid ` set (groups s1)"
    unfolding s1(3) by (rule keys_remaining [OF Cons.prems(2,3)])
  have d: "distinct ks" using Cons.prems(2) by simp
  from Cons.IH [OF s1(2) d sub] obtain s' where
    s': "for_each ks (\<lambda>uid. removeGroup uid) s1 = (None, s')" "inv s'"
      "groups s' = filter (\<lambda>u. g_gid u \<notin> Some ` set ks) (groups s1)"
      "users s' = users s1" "resources s' = resources s1"
    by blast
  have "groups s' = filter (\<lambda>u. g_gid u \<notin> Some ` set (k # ks)) (groups s)"
    unfolding s'(3) s1(3) by (rule filter_filter_keys)
  moreover have "for_each (k # ks) (\<lambda>uid. removeGroup uid) s = (None, s')"
    using s1(1) s'(1) by simp
  ultimately show ?case
    using s'(2,4,5) s1(4,5) by auto
qed

lemma removeGroups_empties:
  assumes i: "inv s"
  shows "\<exists>s'. removeGroups s = (None, s') \<and> inv s' \<and> groups s' = []
     \<and> users s' = users s \<and> resources s' = resources s"
proof -
  from keys_ok_scan [OF invD(2) [OF i]] obtain ks where
    ks: "scan_keys (map g_gid (groups s)) = Inr ks" "map Some ks = map g_gid (groups s)" "distinct ks"
    by blast
  have "set (map Some ks) = set (map g_gid (groups s))" using ks(2) by simp
  then have sub: "Some ` set ks \<subseteq> g_gid ` set (groups s)" by simp
  from removeGroups_loop [OF i ks(3) sub] obtain s' where
    s': "for_each ks (\<lambda>uid. removeGroup uid) s = (None, s')" "inv s'"
      "groups s' = filter (\<lambda>u. g_gid u \<notin> Some ` set ks) (groups s)"
      "users s' = users s" "resources s' = resources s"
    by blast
  have "groups s' = []"
    unfolding s'(3) by (rule filter_all_keys [OF ks(2)])
  moreover have "removeGroups s = (None, s')"
    using ks(1) s'(1) by (simp add: removeGroups_def findGroups_def)
  ultimately show ?thesis using s'(2,4,5) by blast
qed


lemma removeResource_row:
  assumes i: "inv s" and u: "u \<in> set (resources s)" and k: "r_rid u = Some k"
  shows "\<exists>s'. removeResource k s = (None, s') \<and> inv s'
     \<and> resources s' = filter (\<lambda>v. r_rid v \<noteq> Some k) (resources s)
     \<and> groups s' = groups s \<and> users s' = users s"
proof -
  have f: "find (\<lambda>y. like_null (r_rid y) k) (resources s) = Some u"
    by (rule keys_ok_find [OF invD(3) [OF i] u k])
  then obtain s' where t: "removeResource_tx k s = Inr s'"
    by (simp add: removeResource_tx_def select_resource_id_def Let_def)
  note e = removeResource_tx_effect [OF t]
  from e(1) f have "resources s' = filter (\<lambda>v. r_id v \<noteq> r_id u) (resources s)"
    by auto
  then have "resources s' = filter (\<lambda>v. r_rid v \<noteq> Some k) (resources s)"
    using keys_ok_remove [OF invD(3) [OF i] u] k by simp
  moreover have "inv s'" by (rule inv_removeResource [OF i t])
  moreover have "removeResource k s = (None, s')"
    using t by (simp add: removeResource_def ExecuteTx_def)
  ultimately show ?thesis using e(2,3) by blast
qed

lemma removeResources_loop:
  assumes "inv s" and "distinct ks" and "Some ` set ks \<subseteq> r_rid ` set (resources s)"
  shows "\<exists>s'. for_each ks (\<lambda>uid. removeResource uid) s = (None, s') \<and> inv s'
     \<and> resources s' = filter (\<lambda>u. r_rid u \<notin> Some ` set ks) (resources s)
     \<and> groups s' = groups s \<and> users s' = users s"
  using assms
proof (induction ks arbitrary: s)
  case Nil
  then show ?case by simp
next
  case (Cons k ks)
  from Cons.prems(3) obtain u where u: "u \<in> set (resources s)" "r_rid u = Some k"
    by force
  from removeResource_row [OF Cons.prems(1) u] obtain s1 where
    s1: "removeResource k s = (None, s1)" "inv s1"
      "resources s1 = filter (\<lambda>v. r_rid v \<noteq> Some k) (resources s)"
      "groups s1 = groups s" "users s1 = users s"
    by blast
  have sub: "Some ` set ks \<subseteq> r_rid ` set (resources s1)"
    unfolding s1(3) by (rule keys_remaining [OF Cons.prems(2,3)])
  have d: "distinct ks" using Cons.prems(2) by simp
  from Cons.IH [OF s1(2) d sub] obtain s' where
    s': "for_each ks (\<lambda>uid. removeResource uid) s1 = (None, s')" "inv s'"
      "resources s' = filter (\<lambda>u. r_rid u \<notin> Some ` set ks) (resources s1)"
      "groups s' = groups s1" "users s' = users s1"
    by blast
  have "resources s' = filter (\<lambda>u. r_rid u \<notin> Some ` set (k # ks)) (resources s)"
    unfolding s'(3) s1(3) by (rule filter_filter_keys)
  moreover have "for_each (k # ks) (\<lambda>uid. removeResource uid) s = (None, s')"
    using s1(1) s'(1) by simp
  ultimately show ?case
    using s'(2,4,5) s1(4,5) by auto
qed

lemma removeResources_empties:
  assumes i: "inv s"
  shows "\<exists>s'. removeResources s = (None, s') \<and> inv s' \<and> resources s' = []
     \<and> groups s' = groups s \<and> users s' = users s"
proof -
  from keys_ok_scan [OF invD(3) [OF i]] obtain ks where
    ks: "scan_keys (map r_rid (resources s)) = Inr ks" "map Some ks = map r_rid (resources s)" "distinct ks"
    by blast
  have "set (map Some ks) = set (map r_rid (resources s))" using ks(2) by simp
  then have sub: "Some ` set ks \<subseteq> r_rid ` set (resources s)" by simp
  from removeResources_loop [OF i ks(3) sub] obtain s' where
    s': "for_each ks (\<lambda>uid. removeResource uid) s = (None, s')" "inv s'"
      "resources s' = filter (\<lambda>u. r_rid u \<notin> Some ` set ks) (resources s)"
      "groups s' = groups s" "users s' = users s"
    by blast
  have "resources s' = []"
    unfolding s'(3) by (rule filter_all_keys [OF ks(2)])
  moreover have "removeResources s = (None, s')"
    using ks(1) s'(1) by (simp add: removeResources_def findResources_def)
  ultimately show ?thesis using s'(2,4,5) by blast
qed


lemma removeData_empties:
  assumes i: "inv s"
  shows "\<exists>s'. removeData s = (None, s') \<and> empty_tables s'"
proof -
  from removeUsers_empties [OF i] obtain s1 where
    s1: "removeUsers s = (None, s1)" "inv s1" "users s1 = []" by blast
  from removeGroups_empties [OF s1(2)] obtain s2 where
    s2: "removeGroups s1 = (None, s2)" "inv s2" "groups s2 = []" "users s2 = users s1" by blast
  from removeResources_empties [OF s2(2)] obtain s3 where
    s3: "removeResources s2 = (None, s3)" "inv s3" "resources s3 = []"
      "users s3 = users s2" "groups s3 = groups s2" by blast
  have u: "users s3 = []" using s3(4) s2(4) s1(3) by simp
  have g: "groups s3 = []" using s3(5) s2(3) by simp
  have "\<forall>m \<in> set (user_groups s3). False"
    using invD(4) [OF s3(2)] u by simp
  then have m: "user_groups s3 = []" by (cases "user_groups s3") auto
  have "\<forall>a \<in> set (aces s3). False"
    using invD(5) [OF s3(2)] s3(3) by simp
  then have a: "aces s3 = []" by (cases "aces s3") auto
  have "removeData s = (None, s3)"
    using s1(1) s2(1) s3(1) by (simp add: removeData_def)
  then show ?thesis
    using u g s3(3) m a by (auto simp: empty_tables_def)
qed

lemma assignUsersToGroups_errors:
  assumes "assignUsersToGroups m g u s = (Some e, s')"
  shows "\<not> is_panic e \<or> e = PanicDivideByZero"
proof -
  let ?body = "\<lambda>grp (ii :: go_int) (user, s).
                   case addUserToGroup grp user s of
                     (Some err, s') \<Rightarrow> (Some err, (user, s'))
                   | (None, s') \<Rightarrow>
                       (let user = user + 1
                        in if u = 0 then (Some PanicDivideByZero, (user, s'))
                           else (None, (go_rem user u, s')))"
  let ?outer = "for_each (go_range g) (\<lambda>grp. for_each (go_range m) (?body grp)) (0, s)"
  obtain e1 t1 where o: "?outer = (e1, t1)"
    by (cases ?outer) auto
  have e1: "e1 = Some e"
    using assms(1) o unfolding assignUsersToGroups_def by (cases t1) simp
  have body: "\<not> is_panic e' \<or> e' = PanicDivideByZero"
    if "?body grp ii t = (Some e', t')" for grp ii t e' t'
  proof -
    obtain user st where t: "t = (user, st)" by (cases t)
    obtain e2 st2 where a: "addUserToGroup grp user st = (e2, st2)"
      by (cases "addUserToGroup grp user st")
    show ?thesis
    proof (cases e2)
      case None
      then show ?thesis using that t a by (auto simp: Let_def split: if_splits)
    next
      case (Some err)
      then have "e' = err" using that t a by simp
      moreover have "\<not> is_panic err"
        using a Some unfolding addUserToGroup_def
        by (auto elim!: ExecuteTx_error dest: tx_errors)
      ultimately show ?thesis by simp
    qed
  qed
  from for_each_error [OF o [unfolded e1]] obtain grp t t'
    where i: "for_each (go_range m) (?body grp) t = (Some e, t')" by blast
  from for_each_error [OF i] obtain ii t2 t2' where "?body grp ii t2 = (Some e, t2')"
    by blast
  from body [OF this] show ?thesis .
qed

lemma prepareData_errors:
  assumes "prepareData counts s = (Some e, s')"
  shows "e \<noteq> PanicRemoveData cerr"
proof (cases "sane counts")
  case False
  then show ?thesis using assms by (auto simp: prepareData_def)
next
  case True
  have "for_each [addUsers (counts ! Users), addGroups (counts ! Groups),
               assignUsersToGroups (counts ! Members) (counts ! Groups) (counts ! Users),
               assignUserPermissions (counts ! UserPermissions) (counts ! Users),
               assignGroupPermissions (counts ! GroupPermissions) (counts ! Groups)]
              (\<lambda>phase. phase) s = (Some e, s')"
    using assms prepareData_phases [OF True, of s] by simp
  from for_each_error [OF this] have "\<not> is_panic e \<or> e = PanicDivideByZero"
    using addUsers_no_panic addGroups_no_panic assignUsersToGroups_errors
      assignUserPermissions_no_panic assignGroupPermissions_no_panic
    by auto
  then show ?thesis by auto
qed

lemma empty_tables_createSchema: "createSchema t0 = Inr t \<Longrightarrow> empty_tables t"
  by (simp add: empty_tables_def createSchema_effect)

lemma load_then_teardown:
  assumes "reachable s0" and "prepareData counts s0 = (e, s)"
  shows "\<exists>s'. removeData s = (None, s') \<and> empty_tables s'"
  by (rule removeData_empties [OF reachable_inv [OF prepareData_reachable [OF assms(2,1)]]])

lemma runWithCounts_round_trip:
  assumes c: "createSchema t0 = Inr t"
  shows "\<exists>e' t'. runWithCounts counts t = (e', t') \<and> empty_tables t'
     \<and> (\<forall>cerr. e' \<noteq> Some (PanicRemoveData cerr))
     \<and> (sane counts \<longrightarrow> e' = fst (prepareData counts t))"
proof (cases "sane counts")
  case False
  then show ?thesis
    using empty_tables_createSchema [OF c] by (simp add: runWithCounts_def)
next
  case True
  obtain e s1 where p: "prepareData counts t = (e, s1)"
    by (cases "prepareData counts t")
  from load_then_teardown [OF r_createSchema [OF c] p] obtain s2 where
    r: "removeData s1 = (None, s2)" "empty_tables s2" by blast
  have run: "runWithCounts counts t = (e, s2)"
    using True p r(1) by (simp add: runWithCounts_def)
  have "\<forall>cerr. e \<noteq> Some (PanicRemoveData cerr)"
    using prepareData_errors [of counts t _ s1] p by auto
  then show ?thesis
    using run r(2) p by auto
qed

text \<open>
  Claim C2. Whatever store a load phase leaves, whether the load succeeded or stopped at an
  error, and from whatever reachable store it started, the teardown that follows succeeds
  and leaves no row in any of the five tables; so it does on every store the program can
  reach. Hence a driver round on a freshly created
  schema, for any tuple, ends with all five tables as they were before the load, empty;
  the round never ends in the teardown's panic, and for a sane tuple it returns what the
  load returned.
\<close>

theorem teardown_leaves_no_rows:
  "(reachable s0 \<and> prepareData counts s0 = (e, s) \<longrightarrow>
      (\<exists>s'. removeData s = (None, s') \<and> empty_tables s'))
   \<and> (reachable s1 \<longrightarrow> (\<exists>s'. removeData s1 = (None, s') \<and> empty_tables s'))
   \<and> (createSchema t0 = Inr t \<longrightarrow>
      (\<exists>e' t'. runWithCounts tuple t = (e', t') \<and> empty_tables t'
         \<and> users t' = users t \<and> groups t' = groups t \<and> resources t' = resources t
         \<and> user_groups t' = user_groups t \<and> aces t' = aces t
         \<and> (\<forall>cerr. e' \<noteq> Some (PanicRemoveData cerr))
         \<and> (sane tuple \<longrightarrow> e' = fst (prepareData tuple t))))"
proof (intro conjI impI)
  assume "reachable s0 \<and> prepareData counts s0 = (e, s)"
  then show "\<exists>s'. removeData s = (None, s') \<and> empty_tables s'"
    using load_then_teardown by blast
next
  assume "reachable s1"
  then show "\<exists>s'. removeData s1 = (None, s') \<and> empty_tables s'"
    by (rule removeData_empties [OF reachable_inv])
next
  assume c: "createSchema t0 = Inr t"
  from runWithCounts_round_trip [OF c, of tuple] obtain e' t' where
    r: "runWithCounts tuple t = (e', t')" "empty_tables t'"
      "\<forall>cerr. e' \<noteq> Some (PanicRemoveData cerr)" "sane tuple \<longrightarrow> e' = fst (prepareData tuple t)"
    by blast
  have "users t' = users t \<and> groups t' = groups t \<and> resources t' = resources t
         \<and> user_groups t' = user_groups t \<and> aces t' = aces t"
    using r(2) empty_tables_createSchema [OF c] by (simp add: empty_tables_def)
  then show "\<exists>e' t'. runWithCounts tuple t = (e', t') \<and> empty_tables t'
         \<and> users t' = users t \<and> groups t' = groups t \<and> resources t' = resources t
         \<and> user_groups t' = user_groups t \<and> aces t' = aces t
         \<and> (\<forall>cerr. e' \<noteq> Some (PanicRemoveData cerr))
         \<and> (sane tuple \<longrightarrow> e' = fst (prepareData tuple t))"
    using r by blast
qed

theorem teardown_leaves_no_rows_witness:
  "reachable fresh_store
   \<and> prepareData [2, 1, 1, 1, 1] fresh_store = (None, loaded_store)
   \<and> length (users loaded_store) = 2 \<and> length (groups loaded_store) = 1
   \<and> length (resources loaded_store) = 2 \<and> length (user_groups loaded_store) = 1
   \<and> length (aces loaded_store) = 3
   \<and> reachable loaded_store
   \<and> (\<exists>s'. removeData loaded_store = (None, s') \<and> empty_tables s')
   \<and> createSchema fresh_store = Inr fresh_store
   \<and> sane [2, 1, 1, 1, 1]
   \<and> runWithCounts [2, 1, 1, 1, 1] fresh_store = (None, fresh_store\<lparr>rowid := 8\<rparr>)
   \<and> empty_tables (fresh_store\<lparr>rowid := 8\<rparr>)"
proof -
  have p: "prepareData [2, 1, 1, 1, 1] fresh_store = (None, loaded_store)"
    by code_simp
  have l: "length (users loaded_store) = 2" "length (groups loaded_store) = 1"
    "length (resources loaded_store) = 2" "length (user_groups loaded_store) = 1"
    "length (aces loaded_store) = 3"
    by code_simp+
  have c: "createSchema fresh_store = Inr fresh_store"
    by (simp add: createSchema_def fresh_store_def)
  have s: "sane [2, 1, 1, 1, 1]"
    by (simp add: sane_unfold word_sless_alt)
  have r: "runWithCounts [2, 1, 1, 1, 1] fresh_store = (None, fresh_store\<lparr>rowid := 8\<rparr>)"
    by code_simp
  note t = teardown_leaves_no_rows [of fresh_store "[2, 1, 1, 1, 1]" None loaded_store
      loaded_store fresh_store fresh_store "[2, 1, 1, 1, 1]"]
  have a: "\<exists>s'. removeData loaded_store = (None, s') \<and> empty_tables s'"
    using t reachable_fresh_store p by blast
  have b: "empty_tables (fresh_store\<lparr>rowid := 8\<rparr>)"
    using t c r by auto
  show ?thesis
    by (intro conjI reachable_fresh_store p l reachable_loaded_store a c s r b)
qed

subsection \<open>Granting create, then read\<close>

lemma fresh_resource_has_no_ace:
  assumes r: "reachable s" and t: "addResource_tx name s = Inr s'" and p: "plain name"
  shows "select_resource_id name s' = Inr (rowid s)"
    and "user_aces userId (rowid s) s' = []"
    and "group_aces groupId (rowid s) s' = []"
proof -
  note i = reachable_inv [OF r]
  note e = addResource_tx_effect [OF t]
  from e(1) obtain row where
    row: "resources s' = resources s @ [row]" "r_id row = rowid s" "r_rid row = Some name"
    by blast
  have i': "inv s'" by (rule inv_addResource [OF i t p])
  have "find (\<lambda>y. like_null (r_rid y) name) (resources s') = Some row"
    by (rule keys_ok_find [OF invD(3) [OF i'] _ row(3)]) (simp add: row(1))
  then show "select_resource_id name s' = Inr (rowid s)"
    by (simp add: select_resource_id_def row(2))
  have old: "\<forall>a \<in> set (aces s). a_resource_id a \<noteq> Some (rowid s)"
  proof
    fix a assume "a \<in> set (aces s)"
    with invD(5) [OF i] obtain x where x: "x \<in> set (resources s)" "a_resource_id a = Some (r_id x)"
      by blast
    have "r_id x < rowid s"
      using invD(3) [OF i] x(1) by (simp add: keys_ok_def)
    then show "a_resource_id a \<noteq> Some (rowid s)"
      using x(2) by simp
  qed
  show "user_aces userId (rowid s) s' = []"
    using old by (simp add: user_aces_def e(6) filter_empty_conv)
  show "group_aces groupId (rowid s) s' = []"
    using old by (simp add: group_aces_def e(6) filter_empty_conv)
qed

text \<open>
  Claim C1. Take a store in which the resource lookup and the user lookup of the upsert
  succeed and the (user, resource) pair has no ACE row yet. Granting "create" and then
  "read", as the first two rounds of \<^verbatim>\<open>allowUserAccessToResource\<close> do, succeeds
  and leaves exactly one ACE row for the pair; the table has grown by one row, not two, and
  the action string of that row is "create,read", whose action set is {create, read}: the
  second grant found the row of the first and appended to it. That no ACE row is there
  yet is how the program comes to its grants: it grants on a resource right after the
  transaction that created it, and a resource just created on a reachable store has no
  ACE row.
\<close>

theorem grant_create_then_read:
  "(select_resource_id resource s = Inr resourceId \<and>
    select_user_id (Itoa uid) s = Inr userId \<and>
    user_aces userId resourceId s = [] \<longrightarrow>
      (\<exists>s2 a acts.
         for_each [''create'', ''read'']
           (\<lambda>action. ExecuteTx (allowUserAccessToResource_tx action resource uid)) s = (None, s2)
         \<and> user_aces userId resourceId s2 = [a]
         \<and> a_actions a = Some acts \<and> acts = ''create,read''
         \<and> set (split_commas acts) = {''create'', ''read''}
         \<and> length (aces s2) = length (aces s) + 1))
   \<and> (reachable s0 \<and> addResource_tx (userResourceName permission) s0 = Inr t \<longrightarrow>
         select_resource_id (userResourceName permission) t = Inr (rowid s0)
         \<and> user_aces userId' (rowid s0) t = [])"
proof (intro conjI impI; elim conjE)
  assume "select_resource_id resource s = Inr resourceId"
    and "select_user_id (Itoa uid) s = Inr userId"
    and "user_aces userId resourceId s = []"
  then show "\<exists>s2 a acts.
         for_each [''create'', ''read'']
           (\<lambda>action. ExecuteTx (allowUserAccessToResource_tx action resource uid)) s = (None, s2)
         \<and> user_aces userId resourceId s2 = [a]
         \<and> a_actions a = Some acts \<and> acts = ''create,read''
         \<and> set (split_commas acts) = {''create'', ''read''}
         \<and> length (aces s2) = length (aces s) + 1"
    by (rule create_then_read)
next
  assume r: "reachable s0" and t: "addResource_tx (userResourceName permission) s0 = Inr t"
  show "select_resource_id (userResourceName permission) t = Inr (rowid s0)"
    by (rule fresh_resource_has_no_ace(1) [OF r t plain_userResourceName])
  show "user_aces userId' (rowid s0) t = []"
    by (rule fresh_resource_has_no_ace(2) [OF r t plain_userResourceName])
qed

theorem grant_create_then_read_witness:
  "select_resource_id (userResourceName 0) small_store = Inr 1
   \<and> select_user_id (Itoa 0) small_store = Inr 0
   \<and> user_aces 0 1 small_store = []
   \<and> take 2 actions = [''create'', ''read'']
   \<and> (\<exists>s2 a acts.
        for_each [''create'', ''read'']
          (\<lambda>action. ExecuteTx (allowUserAccessToResource_tx action (userResourceName 0) 0))
          small_store = (None, s2)
        \<and> user_aces 0 1 s2 = [a]
        \<and> a_actions a = Some acts \<and> acts = ''create,read''
        \<and> set (split_commas acts) = {''create'', ''read''}
        \<and> length (aces s2) = length (aces small_store) + 1)
   \<and> reachable (snd (addUser 0 fresh_store))
   \<and> addResource_tx (userResourceName 0) (snd (addUser 0 fresh_store)) = Inr small_store
   \<and> rowid (snd (addUser 0 fresh_store)) = 1"
proof -
  have r: "select_resource_id (userResourceName 0) small_store = Inr 1"
    by code_simp
  have u: "select_user_id (Itoa 0) small_store = Inr 0"
    by code_simp
  have n: "user_aces 0 1 small_store = []"
    by code_simp
  have a: "take 2 actions = [''create'', ''read'']"
    by (simp add: actions_def)
  have f: "addUser_tx 0 fresh_store = Inr (snd (addUser 0 fresh_store))"
    by code_simp
  have re: "reachable (snd (addUser 0 fresh_store))"
    by (rule r_addUser [OF reachable_fresh_store f])
  have c: "addResource_tx (userResourceName 0) (snd (addUser 0 fresh_store)) = Inr small_store"
    by code_simp
  have k: "rowid (snd (addUser 0 fresh_store)) = 1"
    by code_simp
  note t = grant_create_then_read [of "userResourceName 0" small_store 1 0 0
      "snd (addUser 0 fresh_store)" 0 small_store 0]
  have g: "\<exists>s2 a acts.
        for_each [''create'', ''read'']
          (\<lambda>action. ExecuteTx (allowUserAccessToResource_tx action (userResourceName 0) 0))
          small_store = (None, s2)
        \<and> user_aces 0 1 s2 = [a]
        \<and> a_actions a = Some acts \<and> acts = ''create,read''
        \<and> set (split_commas acts) = {''create'', ''read''}
        \<and> length (aces s2) = length (aces small_store) + 1"
    using t [THEN conjunct1] r u n by (simp only: simp_thms)
  show ?thesis
    by (intro conjI r u n a g re c k)
qed

end
